theory Spec2Isabelle
  imports
    Main
    "HOL-Library.Word"
    "HOL-Library.Char_ord"
    "HOL-Library.List_Lexorder"
    "HOL-Library.Multiset"
    "HOL-Library.Signed_Division"
begin

section \<open>Bytes, strings and results\<close>

text \<open>
  A Go \<open>[]byte\<close> is a list of 8-bit words; a nil slice and an empty slice are both the
  empty list (the code only ever asks for their length). A Go \<open>string\<close> is a sequence of
  bytes too: Isabelle's \<open>char\<close> is one byte, and the order on \<open>string\<close> (Char_ord with
  List_Lexorder) is Go's byte-wise lexicographic \<open><\<close>.
\<close>

type_synonym byte = "8 word"
type_synonym bytes = "byte list"

definition byte_of_char :: "char \<Rightarrow> byte" where
  "byte_of_char c = of_nat (of_char c)"

definition char_of_byte :: "byte \<Rightarrow> char" where
  "char_of_byte b = char_of (unat b)"

text \<open>\<open>[]byte(s)\<close> and \<open>string(bz)\<close>.\<close>

definition bytes_of_string :: "string \<Rightarrow> bytes" where
  "bytes_of_string s = map byte_of_char s"

definition string_of_bytes :: "bytes \<Rightarrow> string" where
  "string_of_bytes bz = map char_of_byte bz"

text \<open>
  The text of an error: the format of the source with its arguments. Errors that come
  out of code outside the two files carry that code's own text.
\<close>

datatype message =
    could_not_calculate_root string
  | proof_did_not_verify_absence bytes
  | proof_did_not_verify_existence bytes bytes
  | args_must_be_length_0_or_1 nat
  | not_registered_store_name string
  | could_not_convert string
  | leaf_hash_failed string
  | buffer_too_small
  | varint_overflow
  | length_out_of_range nat
  | insufficient_bytes nat

text \<open>
  \<open>ErrInvalidProof m\<close> is \<open>errorsmod.Wrapf(ErrInvalidProof, ...)\<close>, \<open>Errorf m\<close> is
  \<open>fmt.Errorf(...)\<close> (or an error handed up unchanged).
\<close>

datatype error =
    ErrInvalidProof message
  | Errorf message

text \<open>A call either returns or panics (a Go runtime panic unwinds the caller too).\<close>

datatype 'a outcome =
    Return 'a
  | Panic string

section \<open>The data model (commit\_info.go, lines 10-37)\<close>

record CommitID =
  CommitID_Version :: "64 word"
  CommitID_Hash :: bytes

record StoreInfo =
  Name :: string
  CommitID :: CommitID

definition GetHash :: "StoreInfo \<Rightarrow> bytes" where
  "GetHash si = CommitID_Hash (CommitID si)"

text \<open>
  \<open>time.Time\<close> as the instant it denotes: whole seconds since the Unix epoch and the
  nanoseconds within that second, \<open>0 \<le> nsec < 10^9\<close>. Go stores the seconds in an
  \<open>int64\<close> counted from year 1, so the zero \<open>Time\<close> is 62135596800 seconds before the
  epoch.
\<close>

record Time =
  unix_sec :: int
  nsec :: int

record CommitInfo =
  Version :: "64 word"
  StoreInfos :: "StoreInfo list"
  Timestamp :: Time
  CommitHash :: bytes

section \<open>The proof operator's data (proof.go, lines 14-60)\<close>

definition ProofOpIAVLCommitment :: string where
  "ProofOpIAVLCommitment = ''ics23:iavl''"

definition ProofOpSimpleMerkleCommitment :: string where
  "ProofOpSimpleMerkleCommitment = ''ics23:simple''"

definition ProofOpSMTCommitment :: string where
  "ProofOpSMTCommitment = ''ics23:smt''"

text \<open>
  One step of an inclusion path: the sibling subtree's root and the side it stands on.
\<close>

datatype side = SiblingLeft | SiblingRight

datatype InnerOp = InnerOp side bytes

record ExistenceProof =
  Exist_Key :: bytes
  Exist_Value :: bytes
  Exist_Path :: "InnerOp list"

text \<open>
  \<open>ics23.CommitmentProof\<close>: a one-of. The source builds the \<open>Exist\<close> variant (proof.go,
  lines 137-141) and names the non-existence and batch ones; an unset one-of is
  \<open>CommitmentProof_nil\<close>.
\<close>

datatype CommitmentProof =
    CommitmentProof_Exist ExistenceProof
  | CommitmentProof_Nonexist "ExistenceProof option" "ExistenceProof option"
  | CommitmentProof_Batch "CommitmentProof list"
  | CommitmentProof_nil

record 'spec CommitmentOp =
  Type :: string
  Key :: bytes
  Spec :: 'spec
  Proof :: CommitmentProof

text \<open>
  The ics23 library is not part of the repository. It enters as a record of the
  operations the source calls and of the three proof specs it names; every theorem
  below holds for each such record.
\<close>

record 'spec ics23 =
  IavlSpec :: 'spec
  TendermintSpec :: 'spec
  SmtSpec :: 'spec
  Calculate :: "CommitmentProof \<Rightarrow> string + bytes"
  VerifyMembership :: "'spec \<Rightarrow> bytes \<Rightarrow> CommitmentProof \<Rightarrow> bytes \<Rightarrow> bytes \<Rightarrow> bool"
  VerifyNonMembership :: "'spec \<Rightarrow> bytes \<Rightarrow> CommitmentProof \<Rightarrow> bytes \<Rightarrow> bool"
  Proof_Marshal :: "CommitmentProof \<Rightarrow> string + bytes"

definition NewIAVLCommitmentOp ::
  "'spec ics23 \<Rightarrow> bytes \<Rightarrow> CommitmentProof \<Rightarrow> 'spec CommitmentOp" where
  "NewIAVLCommitmentOp lib key proof =
     \<lparr>Type = ProofOpIAVLCommitment, Key = key, Spec = IavlSpec lib, Proof = proof\<rparr>"

definition NewSimpleMerkleCommitmentOp ::
  "'spec ics23 \<Rightarrow> bytes \<Rightarrow> CommitmentProof \<Rightarrow> 'spec CommitmentOp" where
  "NewSimpleMerkleCommitmentOp lib key proof =
     \<lparr>Type = ProofOpSimpleMerkleCommitment, Key = key, Spec = TendermintSpec lib,
      Proof = proof\<rparr>"

definition NewSMTCommitmentOp ::
  "'spec ics23 \<Rightarrow> bytes \<Rightarrow> CommitmentProof \<Rightarrow> 'spec CommitmentOp" where
  "NewSMTCommitmentOp lib key proof =
     \<lparr>Type = ProofOpSMTCommitment, Key = key, Spec = SmtSpec lib, Proof = proof\<rparr>"

definition GetKey :: "'spec CommitmentOp \<Rightarrow> bytes" where
  "GetKey op = Key op"

section \<open>The Merkle tree builder\<close>

text \<open>
  \<open>LeafHash\<close>, \<open>ProofFromByteSlices\<close> and \<open>ConvertCommitmentOp\<close> are called by
  commit\_info.go and defined in other files of the package. The hash function \<open>H\<close>
  is a parameter throughout. So is \<open>LeafHash\<close>: the source takes a hash or an error
  from it (lines 75-78), and which inputs make it fail is not visible there, so the
  functions below take it as an argument and the theorems say what they need of it.
\<close>

text \<open>
  Modelled from the spec: the inner hash of section 4.1,
  \<open>inner_hash(left, right) = H(0x01 \<parallel> left \<parallel> right)\<close>.
\<close>

definition innerHash :: "(bytes \<Rightarrow> bytes) \<Rightarrow> bytes \<Rightarrow> bytes \<Rightarrow> bytes" where
  "innerHash H l r = H (1 # l @ r)"

text \<open>
  Modelled from the spec: the split point of section 4.1, the largest power of two
  below \<open>n\<close>, found by doubling.
\<close>

function splitFrom :: "nat \<Rightarrow> nat \<Rightarrow> nat" where
  "splitFrom p n = (if 0 < p \<and> 2 * p < n then splitFrom (2 * p) n else p)"
  by pat_completeness auto
termination
  by (relation "measure (\<lambda>(p, n). n - p)") auto

declare splitFrom.simps [simp del]

definition getSplitPoint :: "nat \<Rightarrow> nat" where
  "getSplitPoint n = splitFrom 1 n"

lemma splitFrom_bounds: "0 < p \<Longrightarrow> p < n \<Longrightarrow> p \<le> splitFrom p n \<and> splitFrom p n < n"
proof (induction p n rule: splitFrom.induct)
  case (1 p n)
  show ?case
  proof (cases "2 * p < n")
    case True
    with 1 have "2 * p \<le> splitFrom (2 * p) n \<and> splitFrom (2 * p) n < n" by simp
    with True 1 show ?thesis by (subst (1 2) splitFrom.simps) simp
  next
    case False
    with 1 show ?thesis by (subst (1 2) splitFrom.simps) simp
  qed
qed

lemma getSplitPoint_bounds:
  "2 \<le> n \<Longrightarrow> 0 < getSplitPoint n \<and> getSplitPoint n < n"
  using splitFrom_bounds [of 1 n] by (simp add: getSplitPoint_def)

text \<open>
  Modelled from the spec: the root of section 4.1 over leaves that are hashed already
  (section 4.2 hashes them before the tree is built, and scenario 2 has the root of a
  single store equal to its leaf hash): no leaves give the nil sentinel, one leaf is the
  root, more are split at \<open>getSplitPoint\<close>.
\<close>

function merkleRoot :: "(bytes \<Rightarrow> bytes) \<Rightarrow> bytes list \<Rightarrow> bytes" where
  "merkleRoot H [] = []"
| "merkleRoot H [x] = x"
| "merkleRoot H (x # y # zs) =
     (let k = getSplitPoint (length (x # y # zs))
      in innerHash H (merkleRoot H (take k (x # y # zs))) (merkleRoot H (drop k (x # y # zs))))"
  by pat_completeness auto
termination
proof (relation "measure (\<lambda>(H, xs). length xs)", goal_cases)
  case 1
  show ?case by simp
next
  case (2 H x y zs k)
  then show ?case using getSplitPoint_bounds [of "length (x # y # zs)"] by simp
next
  case (3 H x y zs k)
  then show ?case using getSplitPoint_bounds [of "length (x # y # zs)"] by simp
qed

text \<open>
  Modelled from the spec: the inclusion path of section 4.1 for leaf \<open>i\<close>, the sibling
  subtree's root and its side at each split, from the leaf level up to the root.
\<close>

function merklePath :: "(bytes \<Rightarrow> bytes) \<Rightarrow> bytes list \<Rightarrow> nat \<Rightarrow> InnerOp list" where
  "merklePath H [] i = []"
| "merklePath H [x] i = []"
| "merklePath H (x # y # zs) i =
     (let k = getSplitPoint (length (x # y # zs))
      in if i < k
         then merklePath H (take k (x # y # zs)) i
                @ [InnerOp SiblingRight (merkleRoot H (drop k (x # y # zs)))]
         else merklePath H (drop k (x # y # zs)) (i - k)
                @ [InnerOp SiblingLeft (merkleRoot H (take k (x # y # zs)))])"
  by pat_completeness auto
termination
proof (relation "measure (\<lambda>(H, xs, i). length xs)", goal_cases)
  case 1
  show ?case by simp
next
  case (2 H x y zs i k)
  then show ?case using getSplitPoint_bounds [of "length (x # y # zs)"] by simp
next
  case (3 H x y zs i k)
  then show ?case using getSplitPoint_bounds [of "length (x # y # zs)"] by simp
qed

text \<open>
  Modelled from the spec: \<open>ProofFromByteSlices\<close> is missing; by section 4.1 it
  returns the root of the whole sequence and the inclusion path of the leaf at \<open>index\<close>.
\<close>

definition ProofFromByteSlices ::
  "(bytes \<Rightarrow> bytes) \<Rightarrow> bytes list \<Rightarrow> nat \<Rightarrow> bytes \<times> InnerOp list" where
  "ProofFromByteSlices H leaves index = (merkleRoot H leaves, merklePath H leaves index)"

text \<open>
  Modelled from the spec: \<open>ConvertCommitmentOp\<close> is missing; by section 4.2 it makes a
  SimpleMerkle-typed \<open>CommitmentOp\<close> that carries the path as an existence proof keyed
  by the name, with the store's hash as value.
\<close>

definition ConvertCommitmentOp ::
  "'spec ics23 \<Rightarrow> InnerOp list \<Rightarrow> bytes \<Rightarrow> bytes \<Rightarrow> 'spec CommitmentOp" where
  "ConvertCommitmentOp lib inners key val =
     NewSimpleMerkleCommitmentOp lib key
       (CommitmentProof_Exist \<lparr>Exist_Key = key, Exist_Value = val, Exist_Path = inners\<rparr>)"

section \<open>CommitInfo.GetStoreProof and CommitInfo.Hash (commit\_info.go, lines 39-88)\<close>

text \<open>
  \<open>sort.Slice\<close> with \<open>less\<close> on the names (lines 67-69). Go's \<open>sort.Slice\<close> does not
  promise an order among entries with equal names; the model takes the stable one.
  Where the names are pairwise distinct, as the data model asks, every sorting
  algorithm returns the same list (lemma \<open>sort_Slice_unique\<close> below), and the theorems
  that depend on the order assume distinct names.
\<close>

definition sort_Slice :: "StoreInfo list \<Rightarrow> StoreInfo list" where
  "sort_Slice sis = sort_key Name sis"

text \<open>
  The loop of lines 73-82: \<open>i\<close> counts the entries, \<open>leaves\<close> is filled in place,
  \<open>index\<close> keeps the last position whose name is the requested one. An error of
  \<open>LeafHash\<close> ends the loop and the function (lines 76-78).
\<close>

fun leavesLoop ::
  "(bytes \<Rightarrow> bytes \<Rightarrow> error + bytes) \<Rightarrow> string \<Rightarrow> StoreInfo list \<Rightarrow> nat \<Rightarrow> bytes list \<Rightarrow> nat
     \<Rightarrow> error + (bytes list \<times> nat)" where
  "leavesLoop LeafHash storeKey [] i leaves index = Inr (leaves, index)"
| "leavesLoop LeafHash storeKey (si # sis) i leaves index =
     (case LeafHash (bytes_of_string (Name si)) (GetHash si) of
        Inl err \<Rightarrow> Inl err
      | Inr h \<Rightarrow>
          leavesLoop LeafHash storeKey sis (i + 1) (leaves[i := h])
            (if Name si = storeKey then i else index))"

text \<open>
  \<open>GetStoreProof\<close> sorts the receiver's \<open>StoreInfos\<close> in place, so it returns the
  updated \<open>CommitInfo\<close> next to its result. The result is \<open>Inl err\<close> for
  \<open>(nil, nil, err)\<close> and \<open>Inr (rootHash, commitmentOp)\<close> otherwise; the read
  \<open>ci.StoreInfos[index]\<close> of line 85 panics when \<open>index\<close> is out of range.
\<close>

definition GetStoreProof ::
  "(bytes \<Rightarrow> bytes \<Rightarrow> error + bytes) \<Rightarrow> (bytes \<Rightarrow> bytes) \<Rightarrow> 'spec ics23 \<Rightarrow> CommitInfo \<Rightarrow> string
     \<Rightarrow> CommitInfo \<times> (error + bytes \<times> 'spec CommitmentOp) outcome" where
  "GetStoreProof LeafHash H lib ci storeKey =
     (let ci = ci\<lparr>StoreInfos := sort_Slice (StoreInfos ci)\<rparr>
      in case leavesLoop LeafHash storeKey (StoreInfos ci) 0
                (replicate (length (StoreInfos ci)) []) 0 of
           Inl err \<Rightarrow> (ci, Return (Inl err))
         | Inr (leaves, index) \<Rightarrow>
             (case ProofFromByteSlices H leaves index of
                (rootHash, inners) \<Rightarrow>
                  if index < length (StoreInfos ci)
                  then (ci, Return (Inr (rootHash,
                          ConvertCommitmentOp lib inners (bytes_of_string storeKey)
                            (GetHash (StoreInfos ci ! index)))))
                  else (ci, Panic ''index out of range'')))"

text \<open>
  \<open>Hash\<close> (lines 41-52) drops the operator and the error of \<open>GetStoreProof\<close> and returns
  its first result, which is nil when \<open>GetStoreProof\<close> failed. Nothing in it assigns
  \<open>CommitHash\<close>.
\<close>

definition Hash ::
  "(bytes \<Rightarrow> bytes \<Rightarrow> error + bytes) \<Rightarrow> (bytes \<Rightarrow> bytes) \<Rightarrow> 'spec ics23 \<Rightarrow> CommitInfo
     \<Rightarrow> CommitInfo \<times> bytes outcome" where
  "Hash LeafHash H lib ci =
     (if length (StoreInfos ci) = 0 then (ci, Return [])
      else if length (CommitHash ci) \<noteq> 0 then (ci, Return (CommitHash ci))
      else case GetStoreProof LeafHash H lib ci [] of
             (ci', Panic p) \<Rightarrow> (ci', Panic p)
           | (ci', Return (Inl err)) \<Rightarrow> (ci', Return [])
           | (ci', Return (Inr (rootHash, commitmentOp))) \<Rightarrow> (ci', Return rootHash))"

text \<open>\<open>GetStoreCommitID\<close> (lines 55-62): the first entry with the name, else the zero value.\<close>

fun GetStoreCommitID_loop :: "StoreInfo list \<Rightarrow> string \<Rightarrow> CommitID" where
  "GetStoreCommitID_loop [] storeKey = \<lparr>CommitID_Version = 0, CommitID_Hash = []\<rparr>"
| "GetStoreCommitID_loop (si # sis) storeKey =
     (if Name si = storeKey then CommitID si else GetStoreCommitID_loop sis storeKey)"

definition GetStoreCommitID :: "CommitInfo \<Rightarrow> string \<Rightarrow> CommitID" where
  "GetStoreCommitID ci storeKey = GetStoreCommitID_loop (StoreInfos ci) storeKey"

section \<open>CommitmentOp.Run and the wire envelope (proof.go, lines 66-145)\<close>

text \<open>
  \<open>Run\<close> (lines 76-103). The root comes from \<open>op.Proof.Calculate()\<close> before the
  number of arguments is looked at; all four failures wrap \<open>ErrInvalidProof\<close>.
\<close>

definition Run :: "'spec ics23 \<Rightarrow> 'spec CommitmentOp \<Rightarrow> bytes list \<Rightarrow> error + bytes list" where
  "Run lib cop args =
     (case Calculate lib (Proof cop) of
        Inl err \<Rightarrow> Inl (ErrInvalidProof (could_not_calculate_root err))
      | Inr root \<Rightarrow>
          (case args of
             [] \<Rightarrow>
               if \<not> VerifyNonMembership lib (Spec cop) root (Proof cop) (Key cop)
               then Inl (ErrInvalidProof (proof_did_not_verify_absence (Key cop)))
               else Inr [root]
           | [arg0] \<Rightarrow>
               if \<not> VerifyMembership lib (Spec cop) root (Proof cop) (Key cop) arg0
               then Inl (ErrInvalidProof (proof_did_not_verify_existence (Key cop) arg0))
               else Inr [root]
           | _ \<Rightarrow> Inl (ErrInvalidProof (args_must_be_length_0_or_1 (length args)))))"

text \<open>The error of the \<open>default\<close> branch of \<open>Run\<close> (line 99), whatever count it reports.\<close>

fun is_malformed_arguments :: "error \<Rightarrow> bool" where
  "is_malformed_arguments (ErrInvalidProof (args_must_be_length_0_or_1 n)) = True"
| "is_malformed_arguments e = False"

text \<open>\<open>cmtcrypto.ProofOp\<close>, the wire envelope.\<close>

record wire_ProofOp =
  ProofOp_Type :: string
  ProofOp_Key :: bytes
  ProofOp_Data :: bytes

text \<open>\<open>CommitmentOp.ProofOp\<close> (lines 108-118) panics when the proof does not serialize.\<close>

definition ProofOp :: "'spec ics23 \<Rightarrow> 'spec CommitmentOp \<Rightarrow> wire_ProofOp outcome" where
  "ProofOp lib cop =
     (case Proof_Marshal lib (Proof cop) of
        Inl err \<Rightarrow> Panic err
      | Inr bz \<Rightarrow> Return \<lparr>ProofOp_Type = Type cop, ProofOp_Key = Key cop, ProofOp_Data = bz\<rparr>)"

text \<open>
  A Go \<open>map[string][]byte\<close> handed to \<open>ProofOpFromMap\<close> is written as the list of its
  entries; \<open>map_of\<close> looks a key up, and the keys are the first components.
\<close>

type_synonym commit_map = "(string \<times> bytes) list"

text \<open>\<open>cmap[storeName]\<close>: nil for a key that is not there.\<close>

definition map_index :: "commit_map \<Rightarrow> string \<Rightarrow> bytes" where
  "map_index cmap k = (case map_of cmap k of None \<Rightarrow> [] | Some v \<Rightarrow> v)"

text \<open>The simple Merkle proof of one entry: its position and its inclusion path.\<close>

record SimpleProof =
  Total :: nat
  Index :: nat
  Leaf_Hash :: bytes
  Aunts :: "InnerOp list"

text \<open>
  Modelled from the spec: \<open>internalmaps.ProofsFromMap\<close> is missing; by section 4.3 it
  builds, from a flat map of names to hashes, the same kind of inclusion proof as
  \<open>GetStoreProof\<close>: the entries sorted by name, each leaf the leaf hash of name and
  hash, one proof per key of the map. It returns the root, the proofs by key, and the
  sorted keys.
\<close>

definition ProofsFromMap ::
  "(bytes \<Rightarrow> bytes) \<Rightarrow> commit_map \<Rightarrow> bytes \<times> (string \<rightharpoonup> SimpleProof) \<times> string list" where
  "ProofsFromMap H cmap =
     (let keys = sort (remdups (map fst cmap));
          leaves = map (\<lambda>k. H (0 # bytes_of_string k @ map_index cmap k)) keys;
          proofList = map (\<lambda>i. \<lparr>Total = length leaves, Index = i, Leaf_Hash = leaves ! i,
                                 Aunts = merklePath H leaves i\<rparr>) [0..<length leaves]
      in (merkleRoot H leaves, map_of (zip keys proofList), keys))"

text \<open>
  \<open>ProofOpFromMap\<close> (lines 121-145). \<open>internalproofs.ConvertExistenceProof\<close> is
  missing and the spec says only that it can fail, so it is the parameter \<open>conv\<close>.
\<close>

definition ProofOpFromMap ::
  "(bytes \<Rightarrow> bytes) \<Rightarrow> 'spec ics23
     \<Rightarrow> (SimpleProof \<Rightarrow> bytes \<Rightarrow> bytes \<Rightarrow> string + ExistenceProof)
     \<Rightarrow> commit_map \<Rightarrow> string \<Rightarrow> (error + wire_ProofOp) outcome" where
  "ProofOpFromMap H lib conv cmap storeName =
     (case ProofsFromMap H cmap of
        (root, proofs, keys) \<Rightarrow>
          (case proofs storeName of
             None \<Rightarrow> Return (Inl (Errorf (not_registered_store_name storeName)))
           | Some proof \<Rightarrow>
               (case conv proof (bytes_of_string storeName) (map_index cmap storeName) of
                  Inl err \<Rightarrow> Return (Inl (Errorf (could_not_convert err)))
                | Inr existProof \<Rightarrow>
                    (case ProofOp lib
                            (NewSimpleMerkleCommitmentOp lib (bytes_of_string storeName)
                               (CommitmentProof_Exist existProof)) of
                       Panic p \<Rightarrow> Panic p
                     | Return ret \<Rightarrow> Return (Inr ret)))))"

section \<open>The codec (commit\_info.go, lines 90-169)\<close>

subsection \<open>Varints and length-prefixed byte strings\<close>

text \<open>
  \<open>EncodeUvarint\<close>, \<open>EncodeVarint\<close>, \<open>EncodeBytes\<close> and their decoders are called by
  \<open>Marshal\<close> and \<open>Unmarshal\<close> and defined elsewhere in the package. An \<open>int64\<close> is an
  \<open>int\<close> between \<open>- 2^63\<close> and \<open>2^63 - 1\<close>, a \<open>uint64\<close> a 64-bit word.
\<close>

text \<open>
  Modelled from the spec: the unsigned varint of section 4.4, in the usual base-128
  form: seven bits per byte, least significant group first, the top bit set on every
  byte but the last.
\<close>

function PutUvarint :: "nat \<Rightarrow> bytes" where
  "PutUvarint x =
     (if x < 128 then [of_nat x] else of_nat (x mod 128 + 128) # PutUvarint (x div 128))"
  by pat_completeness auto
termination
  by (relation "measure (\<lambda>x. x)") auto

declare PutUvarint.simps [simp del]

text \<open>
  Modelled from the spec: reading an unsigned varint gives its value and the number of
  bytes read; input that ends before a byte without the top bit is truncated.
\<close>

fun Uvarint :: "bytes \<Rightarrow> (nat \<times> nat) option" where
  "Uvarint [] = None"
| "Uvarint (b # bs) =
     (if b < 128 then Some (unat b, 1)
      else case Uvarint bs of
             None \<Rightarrow> None
           | Some (v, n) \<Rightarrow> Some (unat b - 128 + 128 * v, n + 1))"

text \<open>
  Modelled from the spec: \<open>EncodeUvarint\<close> is missing; it appends the unsigned varint
  of a \<open>uint64\<close> to the buffer. The buffer is an in-memory one, whose writes do not fail.
\<close>

definition EncodeUvarint :: "bytes \<Rightarrow> 64 word \<Rightarrow> error + bytes" where
  "EncodeUvarint buf u = Inr (buf @ PutUvarint (unat u))"

text \<open>
  Modelled from the spec: \<open>DecodeUvarint\<close> is missing; by section 7 truncated or
  malformed input is a decoding error. A varint of more than ten bytes or of a value
  that does not fit 64 bits is malformed.
\<close>

definition DecodeUvarint :: "bytes \<Rightarrow> error + (64 word \<times> nat)" where
  "DecodeUvarint bz =
     (case Uvarint bz of
        None \<Rightarrow> Inl (Errorf buffer_too_small)
      | Some (v, n) \<Rightarrow>
          if 10 < n \<or> 2 ^ 64 \<le> v then Inl (Errorf varint_overflow)
          else Inr (of_nat v, n))"

text \<open>
  Modelled from the spec: the signed varint of section 4.4, the unsigned varint of the
  zig-zag image of an \<open>int64\<close> (\<open>0, -1, 1, -2, ...\<close> to \<open>0, 1, 2, 3, ...\<close>).
\<close>

definition zigzag :: "int \<Rightarrow> nat" where
  "zigzag i = (if 0 \<le> i then nat (2 * i) else nat (- 2 * i - 1))"

definition unzigzag :: "nat \<Rightarrow> int" where
  "unzigzag ux = (if even ux then int (ux div 2) else - int (ux div 2) - 1)"

definition EncodeVarint :: "bytes \<Rightarrow> int \<Rightarrow> error + bytes" where
  "EncodeVarint buf i = Inr (buf @ PutUvarint (zigzag i))"

definition DecodeVarint :: "bytes \<Rightarrow> error + (int \<times> nat)" where
  "DecodeVarint bz =
     (case Uvarint bz of
        None \<Rightarrow> Inl (Errorf buffer_too_small)
      | Some (v, n) \<Rightarrow>
          if 10 < n \<or> 2 ^ 64 \<le> v then Inl (Errorf varint_overflow)
          else Inr (unzigzag v, n))"

text \<open>
  Modelled from the spec: the length-prefixed byte string of section 4.4, the length as
  an unsigned varint and then the bytes. \<open>DecodeBytes\<close> returns the bytes and the number
  of bytes it consumed, prefix included; a length that is no \<open>int\<close> or exceeds the input
  is a decoding error.
\<close>

definition EncodeBytes :: "bytes \<Rightarrow> bytes \<Rightarrow> error + bytes" where
  "EncodeBytes buf bz =
     (case EncodeUvarint buf (of_nat (length bz)) of
        Inl err \<Rightarrow> Inl err
      | Inr buf \<Rightarrow> Inr (buf @ bz))"

definition DecodeBytes :: "bytes \<Rightarrow> error + (bytes \<times> nat)" where
  "DecodeBytes bz =
     (case DecodeUvarint bz of
        Inl err \<Rightarrow> Inl err
      | Inr (s, n) \<Rightarrow>
          if 2 ^ 63 \<le> unat s then Inl (Errorf (length_out_of_range (unat s)))
          else if length bz < n + unat s then Inl (Errorf (insufficient_bytes (unat s)))
          else Inr (take (unat s) (drop n bz), n + unat s))"

subsection \<open>Timestamps\<close>

text \<open>
  \<open>Time.UnixNano\<close> and \<open>time.Unix\<close> of Go's library. \<open>UnixNano\<close> multiplies and adds in
  \<open>int64\<close>, which wraps around; Go documents its result as undefined when the
  nanoseconds do not fit an \<open>int64\<close> (before 1678 or after 2262, the zero \<open>Time\<close>
  included). \<open>time.Unix\<close> accepts nanoseconds outside \<open>[0, 10^9)\<close> and normalises.
  A \<open>Time\<close> here is an instant: the location and the monotonic clock reading of a Go
  \<open>Time\<close> are not part of it.
\<close>

definition int64_wrap :: "int \<Rightarrow> int" where
  "int64_wrap x = (x + 2 ^ 63) mod 2 ^ 64 - 2 ^ 63"

definition Second :: int where
  "Second = 1000000000"

definition UnixNano :: "Time \<Rightarrow> int" where
  "UnixNano t = int64_wrap (unix_sec t * 1000000000 + nsec t)"

definition time_Unix :: "int \<Rightarrow> int \<Rightarrow> Time" where
  "time_Unix sec ns =
     (if ns < 0 \<or> 1000000000 \<le> ns
      then (let n = ns sdiv 1000000000;
                sec = sec + n;
                ns = ns - n * 1000000000
            in if ns < 0 then \<lparr>unix_sec = sec - 1, nsec = ns + 1000000000\<rparr>
               else \<lparr>unix_sec = sec, nsec = ns\<rparr>)
      else \<lparr>unix_sec = sec, nsec = ns\<rparr>)"

text \<open>The zero \<open>time.Time\<close>: January 1 of year 1, 00:00:00 UTC.\<close>

definition zero_Time :: Time where
  "zero_Time = \<lparr>unix_sec = - 62135596800, nsec = 0\<rparr>"

subsection \<open>Marshal and Unmarshal\<close>

text \<open>The loop of \<open>Marshal\<close> (lines 114-121).\<close>

fun marshalLoop :: "bytes \<Rightarrow> StoreInfo list \<Rightarrow> error + bytes" where
  "marshalLoop buf [] = Inr buf"
| "marshalLoop buf (si # sis) =
     (case EncodeBytes buf (bytes_of_string (Name si)) of
        Inl err \<Rightarrow> Inl err
      | Inr buf \<Rightarrow>
          (case EncodeBytes buf (CommitID_Hash (CommitID si)) of
             Inl err \<Rightarrow> Inl err
           | Inr buf \<Rightarrow> marshalLoop buf sis))"

text \<open>
  \<open>Marshal\<close> (lines 101-124). \<open>buf.Grow\<close> only reserves capacity and is left out.
\<close>

definition Marshal :: "CommitInfo \<Rightarrow> error + bytes" where
  "Marshal ci =
     (case EncodeUvarint [] (Version ci) of
        Inl err \<Rightarrow> Inl err
      | Inr buf \<Rightarrow>
          (case EncodeVarint buf (UnixNano (Timestamp ci)) of
             Inl err \<Rightarrow> Inl err
           | Inr buf \<Rightarrow>
               (case EncodeUvarint buf (of_nat (length (StoreInfos ci))) of
                  Inl err \<Rightarrow> Inl err
                | Inr buf \<Rightarrow> marshalLoop buf (StoreInfos ci))))"

text \<open>The zero \<open>StoreInfo\<close> that \<open>make\<close> fills the new slice with (line 147).\<close>

definition zero_StoreInfo :: StoreInfo where
  "zero_StoreInfo = \<lparr>Name = [], CommitID = \<lparr>CommitID_Version = 0, CommitID_Hash = []\<rparr>\<rparr>"

text \<open>
  The loop of \<open>Unmarshal\<close> (lines 148-166): \<open>i\<close> runs up to \<open>n\<close>, each round decodes a
  name and a hash and writes them to entry \<open>i\<close>; \<open>version\<close> is \<open>ci.Version\<close>, which the
  loop does not change. It returns the slice as far as it was filled and the error, if
  any.
\<close>

function unmarshalLoop ::
  "nat \<Rightarrow> nat \<Rightarrow> 64 word \<Rightarrow> bytes \<Rightarrow> StoreInfo list \<Rightarrow> StoreInfo list \<times> error option" where
  "unmarshalLoop i n version buf sis =
     (if i < n
      then (case DecodeBytes buf of
              Inl err \<Rightarrow> (sis, Some err)
            | Inr (name, k) \<Rightarrow>
                (let buf = drop k buf;
                     sis = sis[i := (sis ! i)\<lparr>Name := string_of_bytes name\<rparr>]
                 in case DecodeBytes buf of
                      Inl err \<Rightarrow> (sis, Some err)
                    | Inr (hash, k) \<Rightarrow>
                        unmarshalLoop (i + 1) n version (drop k buf)
                          (sis[i := (sis ! i)\<lparr>CommitID :=
                                   \<lparr>CommitID_Version = version, CommitID_Hash = hash\<rparr>\<rparr>])))
      else (sis, None))"
  by pat_completeness auto
termination
  by (relation "measure (\<lambda>(i, n, version, buf, sis). n - i)") auto

declare unmarshalLoop.simps [simp del]

text \<open>
  \<open>Unmarshal\<close> (lines 126-169) writes into its receiver as it goes, so it returns the
  receiver as it leaves it together with the error, if any. \<open>make\<close> panics on a length
  that is no \<open>int\<close>; limits of memory are not modelled.
\<close>

definition Unmarshal :: "CommitInfo \<Rightarrow> bytes \<Rightarrow> (CommitInfo \<times> error option) outcome" where
  "Unmarshal ci buf =
     (case DecodeUvarint buf of
        Inl err \<Rightarrow> Return (ci, Some err)
      | Inr (version, n) \<Rightarrow>
          (let buf = drop n buf;
               ci = ci\<lparr>Version := version\<rparr>
           in case DecodeVarint buf of
                Inl err \<Rightarrow> Return (ci, Some err)
              | Inr (timestamp, n) \<Rightarrow>
                  (let buf = drop n buf;
                       ci = ci\<lparr>Timestamp :=
                              time_Unix (timestamp sdiv Second) (timestamp smod Second)\<rparr>
                   in case DecodeUvarint buf of
                        Inl err \<Rightarrow> Return (ci, Some err)
                      | Inr (storeInfosLen, n) \<Rightarrow>
                          (let buf = drop n buf
                           in if 2 ^ 63 \<le> unat storeInfosLen
                              then Panic ''makeslice: len out of range''
                              else (case unmarshalLoop 0 (unat storeInfosLen) (Version ci) buf
                                           (replicate (unat storeInfosLen) zero_StoreInfo) of
                                      (sis, err) \<Rightarrow> Return (ci\<lparr>StoreInfos := sis\<rparr>, err))))))"

text \<open>
  What Go's types guarantee of a \<open>CommitInfo\<close>: the length of a slice or a string is an
  \<open>int\<close>, so it is below \<open>2^63\<close>.
\<close>

definition go_lengths :: "CommitInfo \<Rightarrow> bool" where
  "go_lengths ci =
     (length (StoreInfos ci) < 2 ^ 63
      \<and> list_all (\<lambda>si. length (Name si) < 2 ^ 63 \<and> length (GetHash si) < 2 ^ 63)
           (StoreInfos ci))"

text \<open>
  A timestamp that \<open>UnixNano\<close> can express: a well-formed instant whose nanoseconds since
  the epoch fit an \<open>int64\<close>.
\<close>

definition nanos_fit_int64 :: "Time \<Rightarrow> bool" where
  "nanos_fit_int64 t =
     (0 \<le> nsec t \<and> nsec t < 1000000000
      \<and> - (2 ^ 63) \<le> unix_sec t * 1000000000 + nsec t
      \<and> unix_sec t * 1000000000 + nsec t < 2 ^ 63)"

text \<open>
  The entry that decoding gives back for an entry: its name and hash, with the version
  of the aggregate.
\<close>

definition decoded_StoreInfo :: "64 word \<Rightarrow> StoreInfo \<Rightarrow> StoreInfo" where
  "decoded_StoreInfo version si =
     \<lparr>Name = Name si, CommitID = \<lparr>CommitID_Version = version, CommitID_Hash = GetHash si\<rparr>\<rparr>"

section \<open>Names for what the loop computes\<close>

text \<open>
  The leaves that the loop of \<open>GetStoreProof\<close> stores for a list of entries (line 75),
  or the error of the first entry on which \<open>LeafHash\<close> fails (lines 76-78).
\<close>

fun leafHashes ::
  "(bytes \<Rightarrow> bytes \<Rightarrow> error + bytes) \<Rightarrow> StoreInfo list \<Rightarrow> error + bytes list" where
  "leafHashes LeafHash [] = Inr []"
| "leafHashes LeafHash (si # sis) =
     (case LeafHash (bytes_of_string (Name si)) (GetHash si) of
        Inl err \<Rightarrow> Inl err
      | Inr h \<Rightarrow>
          (case leafHashes LeafHash sis of
             Inl err \<Rightarrow> Inl err
           | Inr hs \<Rightarrow> Inr (h # hs)))"

text \<open>
  The value of \<open>index\<close> when the loop of \<open>GetStoreProof\<close> ends (lines 71-82), the
  position that line 85 reads; \<open>None\<close> when the loop returned an error instead (then
  line 85 is not reached).
\<close>

definition selectedIndex ::
  "(bytes \<Rightarrow> bytes \<Rightarrow> error + bytes) \<Rightarrow> CommitInfo \<Rightarrow> string \<Rightarrow> nat option" where
  "selectedIndex LeafHash ci storeKey =
     (case leavesLoop LeafHash storeKey (sort_Slice (StoreInfos ci)) 0
             (replicate (length (sort_Slice (StoreInfos ci))) []) 0 of
        Inl err \<Rightarrow> None
      | Inr (leaves, index) \<Rightarrow> Some index)"

text \<open>What \<open>Hash\<close> reads of one entry: its name and its hash.\<close>

definition nameHash :: "StoreInfo \<Rightarrow> string \<times> bytes" where
  "nameHash si = (Name si, GetHash si)"

text \<open>The root that \<open>Hash\<close> returns for leaves or an error of the loop: nil on an error.\<close>

definition rootOrNil :: "(bytes \<Rightarrow> bytes) \<Rightarrow> error + bytes list \<Rightarrow> bytes" where
  "rootOrNil H r = (case r of Inl err \<Rightarrow> [] | Inr leaves \<Rightarrow> merkleRoot H leaves)"

section \<open>Instances for evaluation\<close>

text \<open>
  The theorems are stated for every hash function and every ics23 record. To run the
  definitions on concrete inputs, \<open>H_example\<close> is a one-byte checksum and
  \<open>lib_example\<close> a small ics23: an existence proof's root is its leaf hash folded along
  the path, non-existence and membership compare against that root, and a proof that is
  neither an existence nor a non-existence proof is not recognised.
\<close>

definition H_example :: "bytes \<Rightarrow> bytes" where
  "H_example bz = [sum_list bz]"

text \<open>
  A \<open>LeafHash\<close> for evaluation: the leaf hash of section 4.1 of the spec over name and
  hash, \<open>H(0x00 \<parallel> name \<parallel> hash)\<close>, which refuses an empty name and an empty hash.
\<close>

definition LeafHash_example :: "(bytes \<Rightarrow> bytes) \<Rightarrow> bytes \<Rightarrow> bytes \<Rightarrow> error + bytes" where
  "LeafHash_example H key val =
     (if key = [] then Inl (Errorf (leaf_hash_failed ''Leaf op needs key''))
      else if val = [] then Inl (Errorf (leaf_hash_failed ''Leaf op needs value''))
      else Inr (H (0 # key @ val)))"

fun applyPath :: "(bytes \<Rightarrow> bytes) \<Rightarrow> InnerOp list \<Rightarrow> bytes \<Rightarrow> bytes" where
  "applyPath H [] acc = acc"
| "applyPath H (InnerOp SiblingLeft sib # ops) acc = applyPath H ops (innerHash H sib acc)"
| "applyPath H (InnerOp SiblingRight sib # ops) acc = applyPath H ops (innerHash H acc sib)"

definition existRoot :: "(bytes \<Rightarrow> bytes) \<Rightarrow> ExistenceProof \<Rightarrow> bytes" where
  "existRoot H ep = applyPath H (Exist_Path ep) (H (0 # Exist_Key ep @ Exist_Value ep))"

fun Calculate_example :: "(bytes \<Rightarrow> bytes) \<Rightarrow> CommitmentProof \<Rightarrow> string + bytes" where
  "Calculate_example H (CommitmentProof_Exist ep) = Inr (existRoot H ep)"
| "Calculate_example H (CommitmentProof_Nonexist (Some l) r) = Inr (existRoot H l)"
| "Calculate_example H (CommitmentProof_Nonexist None (Some r)) = Inr (existRoot H r)"
| "Calculate_example H p = Inl ''unrecognized proof type''"

fun VerifyMembership_example ::
  "(bytes \<Rightarrow> bytes) \<Rightarrow> nat \<Rightarrow> bytes \<Rightarrow> CommitmentProof \<Rightarrow> bytes \<Rightarrow> bytes \<Rightarrow> bool" where
  "VerifyMembership_example H spec root (CommitmentProof_Exist ep) key val =
     (Exist_Key ep = key \<and> Exist_Value ep = val \<and> existRoot H ep = root)"
| "VerifyMembership_example H spec root p key val = False"

fun VerifyNonMembership_example ::
  "(bytes \<Rightarrow> bytes) \<Rightarrow> nat \<Rightarrow> bytes \<Rightarrow> CommitmentProof \<Rightarrow> bytes \<Rightarrow> bool" where
  "VerifyNonMembership_example H spec root (CommitmentProof_Nonexist l r) key =
     ((l \<noteq> None \<or> r \<noteq> None)
      \<and> (case l of None \<Rightarrow> True | Some ep \<Rightarrow> Exist_Key ep < key \<and> existRoot H ep = root)
      \<and> (case r of None \<Rightarrow> True | Some ep \<Rightarrow> key < Exist_Key ep \<and> existRoot H ep = root))"
| "VerifyNonMembership_example H spec root p key = False"

definition Marshal_example :: "CommitmentProof \<Rightarrow> string + bytes" where
  "Marshal_example p =
     (case p of
        CommitmentProof_Exist ep \<Rightarrow> Inr (Exist_Key ep @ Exist_Value ep)
      | _ \<Rightarrow> Inr [])"

definition lib_example :: "(bytes \<Rightarrow> bytes) \<Rightarrow> nat ics23" where
  "lib_example H =
     \<lparr>IavlSpec = 0, TendermintSpec = 1, SmtSpec = 2,
      Calculate = Calculate_example H,
      VerifyMembership = VerifyMembership_example H,
      VerifyNonMembership = VerifyNonMembership_example H,
      Proof_Marshal = Marshal_example\<rparr>"

text \<open>The conversion of a simple proof that keeps the path and never fails.\<close>

definition conv_example :: "SimpleProof \<Rightarrow> bytes \<Rightarrow> bytes \<Rightarrow> string + ExistenceProof" where
  "conv_example p key val = Inr \<lparr>Exist_Key = key, Exist_Value = val, Exist_Path = Aunts p\<rparr>"

text \<open>The two stores of the spec's first scenario, in insertion order bank, auth.\<close>

definition store_example :: "string \<Rightarrow> bytes \<Rightarrow> StoreInfo" where
  "store_example name h =
     \<lparr>Name = name, CommitID = \<lparr>CommitID_Version = 7, CommitID_Hash = h\<rparr>\<rparr>"

definition ci_example :: CommitInfo where
  "ci_example =
     \<lparr>Version = 7, StoreInfos = [store_example ''bank'' [1], store_example ''auth'' [2]],
      Timestamp = \<lparr>unix_sec = 1700000000, nsec = 5\<rparr>, CommitHash = []\<rparr>"

text \<open>The same two stores, the hash of auth still empty.\<close>

definition ci_empty_hash_example :: CommitInfo where
  "ci_empty_hash_example =
     \<lparr>Version = 7, StoreInfos = [store_example ''bank'' [1], store_example ''auth'' []],
      Timestamp = \<lparr>unix_sec = 1700000000, nsec = 5\<rparr>, CommitHash = []\<rparr>"

text \<open>The same stores in the other insertion order.\<close>

definition ci_swapped_example :: CommitInfo where
  "ci_swapped_example =
     \<lparr>Version = 7, StoreInfos = [store_example ''auth'' [2], store_example ''bank'' [1]],
      Timestamp = \<lparr>unix_sec = 1700000000, nsec = 5\<rparr>, CommitHash = []\<rparr>"

text \<open>
  A CommitInfo whose timestamp was never set, with the one store of the spec's fifth
  scenario.
\<close>

definition ci_zero_time_example :: CommitInfo where
  "ci_zero_time_example =
     \<lparr>Version = 7, StoreInfos = [store_example ''x'' [9]],
      Timestamp = zero_Time, CommitHash = []\<rparr>"

text \<open>An operator over an existence proof, and one over an unset proof.\<close>

definition op_example :: "nat CommitmentOp" where
  "op_example =
     NewSimpleMerkleCommitmentOp (lib_example H_example) [98]
       (CommitmentProof_Exist \<lparr>Exist_Key = [98], Exist_Value = [2], Exist_Path = []\<rparr>)"

definition op_unset_example :: "nat CommitmentOp" where
  "op_unset_example =
     NewSimpleMerkleCommitmentOp (lib_example H_example) [98] CommitmentProof_nil"

section \<open>Theorems\<close>

text \<open>
  C9. For every CommitInfo whose store\_infos list is empty, Hash returns the nil
  sentinel: it builds no tree, and it neither reads the cached commit\_hash (whatever it
  holds) nor changes the CommitInfo.
\<close>

theorem Hash_empty_store_infos:
  "Hash LeafHash H lib (ci\<lparr>StoreInfos := []\<rparr>) = (ci\<lparr>StoreInfos := []\<rparr>, Return [])"
  by (simp add: Hash_def)

subsection \<open>The loop and the result of GetStoreProof\<close>

lemma leavesLoop_result:
  "length leaves = i + length sis \<Longrightarrow>
   (case leafHashes LeafHash sis of
      Inl err \<Rightarrow> leavesLoop LeafHash k sis i leaves index = Inl err
    | Inr hs \<Rightarrow>
        \<exists>index'. leavesLoop LeafHash k sis i leaves index = Inr (take i leaves @ hs, index')
          \<and> (if k \<in> Name ` set sis
              then i \<le> index' \<and> index' < i + length sis \<and> Name (sis ! (index' - i)) = k
              else index' = index))"
proof (induction sis arbitrary: i leaves index)
  case Nil
  then show ?case by simp
next
  case (Cons si sis)
  show ?case
  proof (cases "LeafHash (bytes_of_string (Name si)) (GetHash si)")
    case (Inl err)
    then show ?thesis by simp
  next
    case (Inr h)
    let ?idx = "if Name si = k then i else index"
    have len: "length (leaves[i := h]) = Suc i + length sis" using Cons.prems by simp
    note IH = Cons.IH [OF len, of ?idx]
    show ?thesis
    proof (cases "leafHashes LeafHash sis")
      case (Inl err)
      with IH Inr show ?thesis by simp
    next
      case hs: (Inr hs)
      with IH obtain index' where
        run: "leavesLoop LeafHash k sis (Suc i) (leaves[i := h]) ?idx
                = Inr (take (Suc i) (leaves[i := h]) @ hs, index')"
        and sel: "if k \<in> Name ` set sis
             then Suc i \<le> index' \<and> index' < Suc i + length sis
                  \<and> Name (sis ! (index' - Suc i)) = k
             else index' = ?idx"
        by auto
      have tk: "take (Suc i) (leaves[i := h]) = take i leaves @ [h]"
        using Cons.prems by (simp add: take_Suc_conv_app_nth)
      have eq: "leavesLoop LeafHash k (si # sis) i leaves index
                  = Inr (take i leaves @ h # hs, index')"
        using run tk Inr by simp
      have "if k \<in> Name ` set (si # sis)
              then i \<le> index' \<and> index' < i + length (si # sis)
                   \<and> Name ((si # sis) ! (index' - i)) = k
              else index' = index"
      proof (cases "k \<in> Name ` set sis")
        case True
        with sel have "Suc i \<le> index'" "index' < Suc i + length sis"
          "Name (sis ! (index' - Suc i)) = k" by simp_all
        moreover from \<open>Suc i \<le> index'\<close> have "index' - i = Suc (index' - Suc i)" by simp
        ultimately show ?thesis using True by auto
      next
        case False
        with sel have "index' = ?idx" by simp
        then show ?thesis using False by auto
      qed
      with eq Inr hs show ?thesis by simp
    qed
  qed
qed

lemma length_sort_Slice [simp]: "length (sort_Slice sis) = length sis"
  by (simp add: sort_Slice_def)

lemma set_sort_Slice [simp]: "set (sort_Slice sis) = set sis"
  by (simp add: sort_Slice_def)

lemma GetStoreProof_nonempty:
  assumes "StoreInfos ci \<noteq> []"
  shows "case leafHashes LeafHash (sort_Slice (StoreInfos ci)) of
      Inl err \<Rightarrow>
        selectedIndex LeafHash ci k = None
        \<and> GetStoreProof LeafHash H lib ci k =
            (ci\<lparr>StoreInfos := sort_Slice (StoreInfos ci)\<rparr>, Return (Inl err))
    | Inr hs \<Rightarrow>
        \<exists>index. index < length (StoreInfos ci)
          \<and> selectedIndex LeafHash ci k = Some index
          \<and> (if k \<in> Name ` set (StoreInfos ci)
              then Name (sort_Slice (StoreInfos ci) ! index) = k else index = 0)
          \<and> GetStoreProof LeafHash H lib ci k =
              (ci\<lparr>StoreInfos := sort_Slice (StoreInfos ci)\<rparr>,
               Return (Inr (merkleRoot H hs,
                 ConvertCommitmentOp lib (merklePath H hs index)
                   (bytes_of_string k) (GetHash (sort_Slice (StoreInfos ci) ! index)))))"
proof -
  let ?s = "sort_Slice (StoreInfos ci)"
  have len: "length (replicate (length ?s) ([]::bytes)) = 0 + length ?s" by simp
  note res = leavesLoop_result [OF len, of LeafHash k 0]
  show ?thesis
  proof (cases "leafHashes LeafHash ?s")
    case (Inl err)
    with res have "leavesLoop LeafHash k ?s 0 (replicate (length ?s) []) 0 = Inl err"
      by simp
    then show ?thesis using Inl by (simp add: GetStoreProof_def selectedIndex_def)
  next
    case (Inr hs)
    with res obtain index where
      run: "leavesLoop LeafHash k ?s 0 (replicate (length ?s) []) 0 = Inr (hs, index)"
      and sel: "if k \<in> Name ` set ?s
           then 0 \<le> index \<and> index < 0 + length ?s \<and> Name (?s ! (index - 0)) = k
           else index = 0"
      by auto
    have lt: "index < length (StoreInfos ci)"
      using sel assms by (auto split: if_splits)
    have "GetStoreProof LeafHash H lib ci k =
           (ci\<lparr>StoreInfos := ?s\<rparr>,
            Return (Inr (merkleRoot H hs,
              ConvertCommitmentOp lib (merklePath H hs index)
                (bytes_of_string k) (GetHash (?s ! index)))))"
      using run lt by (simp add: GetStoreProof_def ProofFromByteSlices_def)
    moreover have "selectedIndex LeafHash ci k = Some index"
      using run by (simp add: selectedIndex_def)
    ultimately show ?thesis using lt sel Inr by (auto split: if_splits)
  qed
qed

lemma GetStoreProof_empty:
  "StoreInfos ci = [] \<Longrightarrow>
   GetStoreProof LeafHash H lib ci k = (ci, Panic ''index out of range'')"
  by (simp add: GetStoreProof_def sort_Slice_def ProofFromByteSlices_def)

lemma leafHashes_succeed:
  "\<forall>si\<in>set sis. \<exists>h. LeafHash (bytes_of_string (Name si)) (GetHash si) = Inr h \<Longrightarrow>
   \<exists>hs. leafHashes LeafHash sis = Inr hs"
  by (induction sis) auto

lemma Hash_fresh:
  assumes "StoreInfos ci \<noteq> []" "CommitHash ci = []"
  shows "Hash LeafHash H lib ci =
           (ci\<lparr>StoreInfos := sort_Slice (StoreInfos ci)\<rparr>,
            Return (rootOrNil H (leafHashes LeafHash (sort_Slice (StoreInfos ci)))))"
proof (cases "leafHashes LeafHash (sort_Slice (StoreInfos ci))")
  case (Inl err)
  with GetStoreProof_nonempty [OF assms(1), of LeafHash "[]" H lib]
  have "GetStoreProof LeafHash H lib ci [] =
          (ci\<lparr>StoreInfos := sort_Slice (StoreInfos ci)\<rparr>, Return (Inl err))"
    by simp
  then show ?thesis using assms Inl by (simp add: Hash_def rootOrNil_def)
next
  case (Inr hs)
  with GetStoreProof_nonempty [OF assms(1), of LeafHash "[]" H lib] obtain index where
    "GetStoreProof LeafHash H lib ci [] =
         (ci\<lparr>StoreInfos := sort_Slice (StoreInfos ci)\<rparr>,
          Return (Inr (merkleRoot H hs,
            ConvertCommitmentOp lib (merklePath H hs index)
              (bytes_of_string []) (GetHash (sort_Slice (StoreInfos ci) ! index)))))"
    by auto
  then show ?thesis using assms Inr by (simp add: Hash_def rootOrNil_def)
qed

lemma ci_example_nonempty: "StoreInfos ci_example \<noteq> []"
  by (simp add: ci_example_def)

lemma ci_example_distinct: "distinct (map Name (StoreInfos ci_example))"
  by (simp add: ci_example_def store_example_def)

text \<open>
  C6, as the code has it. For every CommitInfo with at least one store info and
  pairwise distinct names, an unmatched name is no cause of failure in GetStoreProof:
  if LeafHash succeeds on every entry, the call returns a root and an operator without
  error for every requested name, the selected leaf carrying the requested name when
  some store has it and being the one at index 0 of the sorted list otherwise. The
  only error is that of LeafHash on an entry, which the call returns for matched and
  unmatched names alike.
\<close>

theorem GetStoreProof_unmatched_defaults_to_0:
  "StoreInfos ci \<noteq> [] \<Longrightarrow> distinct (map Name (StoreInfos ci)) \<Longrightarrow>
   (case leafHashes LeafHash (sort_Slice (StoreInfos ci)) of
      Inl err \<Rightarrow> snd (GetStoreProof LeafHash H lib ci storeKey) = Return (Inl err)
    | Inr leaves \<Rightarrow>
        \<exists>index. selectedIndex LeafHash ci storeKey = Some index
          \<and> (if storeKey \<in> Name ` set (StoreInfos ci)
              then Name (sort_Slice (StoreInfos ci) ! index) = storeKey else index = 0)
          \<and> snd (GetStoreProof LeafHash H lib ci storeKey) =
               Return (Inr (merkleRoot H leaves,
                 ConvertCommitmentOp lib (merklePath H leaves index)
                   (bytes_of_string storeKey)
                   (GetHash (sort_Slice (StoreInfos ci) ! index)))))
   \<and> ((\<forall>si\<in>set (StoreInfos ci).
          \<exists>h. LeafHash (bytes_of_string (Name si)) (GetHash si) = Inr h)
        \<longrightarrow> (\<exists>leaves. leafHashes LeafHash (sort_Slice (StoreInfos ci)) = Inr leaves))"
proof (intro conjI impI)
  assume ne: "StoreInfos ci \<noteq> []"
  from GetStoreProof_nonempty [OF ne, of LeafHash storeKey H lib]
  show "case leafHashes LeafHash (sort_Slice (StoreInfos ci)) of
      Inl err \<Rightarrow> snd (GetStoreProof LeafHash H lib ci storeKey) = Return (Inl err)
    | Inr leaves \<Rightarrow>
        \<exists>index. selectedIndex LeafHash ci storeKey = Some index
          \<and> (if storeKey \<in> Name ` set (StoreInfos ci)
              then Name (sort_Slice (StoreInfos ci) ! index) = storeKey else index = 0)
          \<and> snd (GetStoreProof LeafHash H lib ci storeKey) =
               Return (Inr (merkleRoot H leaves,
                 ConvertCommitmentOp lib (merklePath H leaves index)
                   (bytes_of_string storeKey)
                   (GetHash (sort_Slice (StoreInfos ci) ! index))))"
    by (cases "leafHashes LeafHash (sort_Slice (StoreInfos ci))") auto
next
  assume "\<forall>si\<in>set (StoreInfos ci).
            \<exists>h. LeafHash (bytes_of_string (Name si)) (GetHash si) = Inr h"
  then show "\<exists>leaves. leafHashes LeafHash (sort_Slice (StoreInfos ci)) = Inr leaves"
    by (intro leafHashes_succeed) simp
qed

theorem GetStoreProof_unmatched_defaults_to_0_witness:
  "StoreInfos ci_example \<noteq> []
   \<and> distinct (map Name (StoreInfos ci_example))
   \<and> ''zzz'' \<notin> Name ` set (StoreInfos ci_example)
   \<and> leafHashes (LeafHash_example H_example) (sort_Slice (StoreInfos ci_example))
       = Inr [[180], [157]]
   \<and> selectedIndex (LeafHash_example H_example) ci_example ''zzz'' = Some 0
   \<and> snd (GetStoreProof (LeafHash_example H_example) H_example (lib_example H_example)
            ci_example ''zzz'') =
       Return (Inr ([82],
         \<lparr>Type = ''ics23:simple'', Key = [122, 122, 122], Spec = 1,
          Proof = CommitmentProof_Exist
                    \<lparr>Exist_Key = [122, 122, 122], Exist_Value = [2],
                     Exist_Path = [InnerOp SiblingRight [157]]\<rparr>\<rparr>))"
proof -
  have notin: "''zzz'' \<notin> Name ` set (StoreInfos ci_example)"
    by (simp add: ci_example_def store_example_def)
  have lv: "leafHashes (LeafHash_example H_example) (sort_Slice (StoreInfos ci_example))
              = Inr [[180], [157]]"
    by code_simp
  from GetStoreProof_unmatched_defaults_to_0 [OF ci_example_nonempty ci_example_distinct,
      of "LeafHash_example H_example" H_example "lib_example H_example" "''zzz''"] lv notin
  have "selectedIndex (LeafHash_example H_example) ci_example ''zzz'' = Some 0" by auto
  moreover have "snd (GetStoreProof (LeafHash_example H_example) H_example
                        (lib_example H_example) ci_example ''zzz'') =
       Return (Inr ([82],
         \<lparr>Type = ''ics23:simple'', Key = [122, 122, 122], Spec = 1,
          Proof = CommitmentProof_Exist
                    \<lparr>Exist_Key = [122, 122, 122], Exist_Value = [2],
                     Exist_Path = [InnerOp SiblingRight [157]]\<rparr>\<rparr>))"
    by code_simp
  ultimately show ?thesis using ci_example_nonempty ci_example_distinct notin lv by simp
qed

text \<open>
  The claim as stated fails where LeafHash fails: with a LeafHash that refuses an empty
  hash, on the stores bank and auth, the hash of auth empty, GetStoreProof for the
  unmatched name zzz returns the error of LeafHash and neither root nor operator.
\<close>

theorem GetStoreProof_LeafHash_error_counterexample:
  "StoreInfos ci_empty_hash_example \<noteq> []
   \<and> ''zzz'' \<notin> Name ` set (StoreInfos ci_empty_hash_example)
   \<and> snd (GetStoreProof (LeafHash_example H_example) H_example (lib_example H_example)
            ci_empty_hash_example ''zzz'')
       = Return (Inl (Errorf (leaf_hash_failed ''Leaf op needs value'')))"
proof -
  have "snd (GetStoreProof (LeafHash_example H_example) H_example (lib_example H_example)
            ci_empty_hash_example ''zzz'')
       = Return (Inl (Errorf (leaf_hash_failed ''Leaf op needs value'')))"
    by code_simp
  then show ?thesis by (simp add: ci_empty_hash_example_def store_example_def)
qed

text \<open>
  C10. Non-empty store\_infos is a precondition of GetStoreProof. With at least one
  store info the call returns for every requested name, and whenever the loop selects
  an index (it does if LeafHash succeeds on every entry; otherwise the call returns
  the error before the read) that index is below the length of store\_infos, so the
  read at that index is in bounds. With no store info nothing guards the read: the
  loop does not run, the index is 0, and the call panics on the out-of-range read
  instead of returning an error.
\<close>

theorem GetStoreProof_index_in_bounds:
  "(StoreInfos ci \<noteq> [] \<longrightarrow>
      (case selectedIndex LeafHash ci storeKey of
         Some index \<Rightarrow> index < length (StoreInfos ci)
       | None \<Rightarrow> \<exists>err. snd (GetStoreProof LeafHash H lib ci storeKey) = Return (Inl err))
      \<and> (\<exists>r. snd (GetStoreProof LeafHash H lib ci storeKey) = Return r)
      \<and> ((\<forall>si\<in>set (StoreInfos ci).
             \<exists>h. LeafHash (bytes_of_string (Name si)) (GetHash si) = Inr h)
           \<longrightarrow> (\<exists>index. selectedIndex LeafHash ci storeKey = Some index
                          \<and> index < length (StoreInfos ci))))
   \<and> (StoreInfos ci = [] \<longrightarrow>
      selectedIndex LeafHash ci storeKey = Some 0
      \<and> snd (GetStoreProof LeafHash H lib ci storeKey) = Panic ''index out of range'')"
proof (intro conjI impI)
  assume ne: "StoreInfos ci \<noteq> []"
  note g = GetStoreProof_nonempty [OF ne, of LeafHash storeKey H lib]
  from g show "case selectedIndex LeafHash ci storeKey of
         Some index \<Rightarrow> index < length (StoreInfos ci)
       | None \<Rightarrow> \<exists>err. snd (GetStoreProof LeafHash H lib ci storeKey) = Return (Inl err)"
    by (cases "leafHashes LeafHash (sort_Slice (StoreInfos ci))") auto
  from g show "\<exists>r. snd (GetStoreProof LeafHash H lib ci storeKey) = Return r"
    by (cases "leafHashes LeafHash (sort_Slice (StoreInfos ci))") auto
  assume "\<forall>si\<in>set (StoreInfos ci).
            \<exists>h. LeafHash (bytes_of_string (Name si)) (GetHash si) = Inr h"
  then have "\<exists>hs. leafHashes LeafHash (sort_Slice (StoreInfos ci)) = Inr hs"
    by (intro leafHashes_succeed) simp
  with g show "\<exists>index. selectedIndex LeafHash ci storeKey = Some index
                          \<and> index < length (StoreInfos ci)"
    by auto
next
  assume e: "StoreInfos ci = []"
  then show "selectedIndex LeafHash ci storeKey = Some 0"
    by (simp add: selectedIndex_def sort_Slice_def)
  from e show "snd (GetStoreProof LeafHash H lib ci storeKey) = Panic ''index out of range''"
    by (simp add: GetStoreProof_empty)
qed

theorem GetStoreProof_index_in_bounds_witness:
  "StoreInfos ci_example \<noteq> []
   \<and> selectedIndex (LeafHash_example H_example) ci_example ''bank'' = Some 1
   \<and> 1 < length (StoreInfos ci_example)
   \<and> (\<exists>r. snd (GetStoreProof (LeafHash_example H_example) H_example (lib_example H_example)
                 ci_example ''bank'') = Return r)
   \<and> StoreInfos (ci_example\<lparr>StoreInfos := []\<rparr>) = []
   \<and> snd (GetStoreProof (LeafHash_example H_example) H_example (lib_example H_example)
            (ci_example\<lparr>StoreInfos := []\<rparr>) ''bank'') = Panic ''index out of range''"
proof -
  have sel: "selectedIndex (LeafHash_example H_example) ci_example ''bank'' = Some 1"
    by code_simp
  have len: "1 < length (StoreInfos ci_example)" by (simp add: ci_example_def)
  have e: "StoreInfos (ci_example\<lparr>StoreInfos := []\<rparr>) = []" by simp
  from GetStoreProof_index_in_bounds
         [where ci = ci_example and LeafHash = "LeafHash_example H_example"
            and storeKey = "''bank''" and H = H_example and lib = "lib_example H_example"]
       ci_example_nonempty
  have r: "\<exists>r. snd (GetStoreProof (LeafHash_example H_example) H_example
                     (lib_example H_example) ci_example ''bank'') = Return r"
    by blast
  from GetStoreProof_index_in_bounds
         [where ci = "ci_example\<lparr>StoreInfos := []\<rparr>"
            and LeafHash = "LeafHash_example H_example"
            and storeKey = "''bank''" and H = H_example and lib = "lib_example H_example"] e
  have p: "snd (GetStoreProof (LeafHash_example H_example) H_example (lib_example H_example)
                 (ci_example\<lparr>StoreInfos := []\<rparr>) ''bank'') = Panic ''index out of range''"
    by blast
  show ?thesis using ci_example_nonempty sel len r e p by blast
qed

subsection \<open>Hash: order of insertion and caching\<close>

lemma filter_key_distinct:
  "distinct (map f zs) \<Longrightarrow> k \<in> set zs \<Longrightarrow> filter (\<lambda>x. f k = f x) zs = [k]"
proof (induction zs)
  case Nil
  then show ?case by simp
next
  case (Cons z zs)
  show ?case
  proof (cases "k = z")
    case True
    have "filter (\<lambda>x. f z = f x) zs = []"
      using Cons.prems(1) by (auto simp: filter_empty_conv)
    with True show ?thesis by simp
  next
    case False
    with Cons.prems have "k \<in> set zs" by simp
    moreover from this have "f k \<in> f ` set zs" by (rule imageI)
    moreover from Cons.prems(1) have "f z \<notin> f ` set zs" by simp
    ultimately have "k \<in> set zs" "f k \<noteq> f z" by metis+
    then have "filter (\<lambda>x. f k = f x) (z # zs) = filter (\<lambda>x. f k = f x) zs" by simp
    moreover have "filter (\<lambda>x. f k = f x) zs = [k]"
      using Cons.IH Cons.prems(1) \<open>k \<in> set zs\<close> by simp
    ultimately show ?thesis by simp
  qed
qed

lemma sort_key_unique:
  assumes "distinct (map f xs)" "mset ys = mset xs"
  shows "sort_key f ys = sort_key f xs"
proof (rule properties_for_sort_key)
  show "mset (sort_key f xs) = mset ys" using assms(2) by simp
  show "sorted (map f (sort_key f xs))" by simp
next
  fix k assume k: "k \<in> set (sort_key f xs)"
  have dy: "distinct (map f ys)"
    using assms by (metis mset_eq_imp_distinct_iff mset_map)
  have ky: "k \<in> set ys" using k assms(2) by (metis mset_eq_setD set_sort)
  have ds: "distinct (map f (sort_key f xs))"
    using assms(1) by (metis mset_eq_imp_distinct_iff mset_map mset_sort)
  show "filter (\<lambda>x. f k = f x) (sort_key f xs) = filter (\<lambda>x. f k = f x) ys"
    using filter_key_distinct [OF ds k] filter_key_distinct [OF dy ky] by simp
qed

text \<open>
  With pairwise distinct names every list that is a permutation of the entries and
  sorted by name is the list the model's sort returns, whatever algorithm produced it.
\<close>

lemma sort_Slice_unique:
  assumes "distinct (map Name xs)" "mset ys = mset xs" "sorted (map Name ys)"
  shows "ys = sort_Slice xs"
proof -
  have "sort_key Name ys = sort_key Name xs" by (rule sort_key_unique [OF assms(1,2)])
  moreover have "sort_key Name ys = ys" by (rule sort_key_id_if_sorted [OF assms(3)])
  ultimately show ?thesis by (simp add: sort_Slice_def)
qed

lemma map_insort_key:
  "map g (insort_key (\<lambda>x. f (g x)) x xs) = insort_key f (g x) (map g xs)"
  by (induction xs) simp_all

lemma map_sort_key:
  "map g (sort_key (\<lambda>x. f (g x)) xs) = sort_key f (map g xs)"
  by (induction xs) (simp_all add: map_insort_key)

lemma nameHash_sort_Slice:
  "map nameHash (sort_Slice xs) = sort_key fst (map nameHash xs)"
  using map_sort_key [of nameHash fst xs] by (simp add: nameHash_def sort_Slice_def)

lemma leafHashes_nameHash:
  "map nameHash xs = map nameHash ys \<Longrightarrow> leafHashes LeafHash xs = leafHashes LeafHash ys"
proof (induction xs arbitrary: ys)
  case Nil
  then show ?case by simp
next
  case (Cons x xs)
  then obtain y ys' where ys: "ys = y # ys'" by (cases ys) auto
  with Cons.prems have hd: "nameHash x = nameHash y"
    and tl: "map nameHash xs = map nameHash ys'"
    by simp_all
  from hd have "Name x = Name y" "GetHash x = GetHash y" by (simp_all add: nameHash_def)
  moreover from tl have "leafHashes LeafHash xs = leafHashes LeafHash ys'" by (rule Cons.IH)
  ultimately show ?case using ys by (simp split: sum.splits)
qed

lemma leaves_sorted_perm:
  assumes "distinct (map Name xs)" "mset (map nameHash ys) = mset (map nameHash xs)"
  shows "leafHashes LeafHash (sort_Slice ys) = leafHashes LeafHash (sort_Slice xs)"
proof -
  have d: "distinct (map fst (map nameHash xs))"
    using assms(1) by (simp add: nameHash_def comp_def)
  have "map nameHash (sort_Slice ys) = map nameHash (sort_Slice xs)"
    using sort_key_unique [OF d assms(2)] by (simp add: nameHash_sort_Slice)
  then show ?thesis by (rule leafHashes_nameHash)
qed

lemma sort_Slice_Nil_iff: "sort_Slice xs = [] \<longleftrightarrow> xs = []"
  using length_sort_Slice [of xs] by (metis length_0_conv)

lemma sort_Slice_idem: "sort_Slice (sort_Slice xs) = sort_Slice xs"
  by (simp add: sort_Slice_def sort_key_id_if_sorted)

text \<open>
  C8. For store infos with pairwise distinct names and no commit\_hash set, Hash returns
  the same root for every CommitInfo that holds the same multiset of (name, hash)
  pairs, in whatever order they were inserted, and a second call on the same CommitInfo
  returns the same value as the first. This holds for every LeafHash, failing or not.
\<close>

theorem Hash_permutation_invariant:
  assumes "distinct (map Name (StoreInfos ci))"
    and "mset (map nameHash (StoreInfos ci')) = mset (map nameHash (StoreInfos ci))"
    and "CommitHash ci = []" and "CommitHash ci' = []"
  shows "snd (Hash LeafHash H lib ci') = snd (Hash LeafHash H lib ci)
     \<and> snd (Hash LeafHash H lib (fst (Hash LeafHash H lib ci))) = snd (Hash LeafHash H lib ci)"
proof (cases "StoreInfos ci = []")
  case True
  with assms(2) have "StoreInfos ci' = []" by simp
  with True show ?thesis by (simp add: Hash_def)
next
  case False
  with assms(2) have ne': "StoreInfos ci' \<noteq> []" by auto
  have a: "snd (Hash LeafHash H lib ci') = snd (Hash LeafHash H lib ci)"
    using Hash_fresh [OF False assms(3), of LeafHash H lib]
      Hash_fresh [OF ne' assms(4), of LeafHash H lib]
      leaves_sorted_perm [OF assms(1,2), of LeafHash] by simp
  let ?c = "ci\<lparr>StoreInfos := sort_Slice (StoreInfos ci)\<rparr>"
  have ne2: "StoreInfos ?c \<noteq> []"
    using False by (simp add: sort_Slice_Nil_iff)
  have "snd (Hash LeafHash H lib ?c) = snd (Hash LeafHash H lib ci)"
    using Hash_fresh [OF ne2, of LeafHash H lib] Hash_fresh [OF False assms(3), of LeafHash H lib]
      assms(3)
    by (simp add: sort_Slice_idem)
  then show ?thesis using a Hash_fresh [OF False assms(3), of LeafHash H lib] by simp
qed

theorem Hash_permutation_invariant_witness:
  "distinct (map Name (StoreInfos ci_example))
   \<and> mset (map nameHash (StoreInfos ci_swapped_example))
       = mset (map nameHash (StoreInfos ci_example))
   \<and> CommitHash ci_example = [] \<and> CommitHash ci_swapped_example = []
   \<and> snd (Hash (LeafHash_example H_example) H_example (lib_example H_example)
            ci_swapped_example) = Return [82]
   \<and> snd (Hash (LeafHash_example H_example) H_example (lib_example H_example) ci_example)
       = Return [82]
   \<and> snd (Hash (LeafHash_example H_example) H_example (lib_example H_example)
           (fst (Hash (LeafHash_example H_example) H_example (lib_example H_example)
                  ci_example))) = Return [82]"
proof -
  have m: "mset (map nameHash (StoreInfos ci_swapped_example))
       = mset (map nameHash (StoreInfos ci_example))"
    by (simp add: ci_example_def ci_swapped_example_def)
  have c: "CommitHash ci_example = []" by (simp add: ci_example_def)
  have c': "CommitHash ci_swapped_example = []" by (simp add: ci_swapped_example_def)
  have v: "snd (Hash (LeafHash_example H_example) H_example (lib_example H_example)
                 ci_example) = Return [82]"
    by code_simp
  from Hash_permutation_invariant [OF ci_example_distinct m c c',
      of "LeafHash_example H_example" H_example "lib_example H_example"] v
  show ?thesis using ci_example_distinct m c c' by simp
qed

text \<open>
  C1, as the code has it. For every CommitInfo with non-empty store\_infos, Hash never
  stores what it computes: commit\_hash is after the call what it was before. With an
  empty commit\_hash and pairwise distinct names, Hash sorts store\_infos by name and
  returns the aggregate root over the sorted entries if LeafHash succeeds on every
  entry, and nil if LeafHash fails on one (the error is dropped); a later call
  recomputes this from the store\_infos it then finds. A non-empty commit\_hash, set by
  the caller, is returned verbatim and nothing is recomputed.
\<close>

theorem Hash_computes_without_caching:
  "StoreInfos ci \<noteq> [] \<Longrightarrow>
   CommitHash (fst (Hash LeafHash H lib ci)) = CommitHash ci
   \<and> (CommitHash ci \<noteq> [] \<longrightarrow> Hash LeafHash H lib ci = (ci, Return (CommitHash ci)))
   \<and> (CommitHash ci = [] \<and> distinct (map Name (StoreInfos ci)) \<longrightarrow>
        Hash LeafHash H lib ci =
          (ci\<lparr>StoreInfos := sort_Slice (StoreInfos ci)\<rparr>,
           Return (case leafHashes LeafHash (sort_Slice (StoreInfos ci)) of
                     Inl err \<Rightarrow> []
                   | Inr leaves \<Rightarrow> merkleRoot H leaves)))
   \<and> (CommitHash ci = [] \<and> sis' \<noteq> [] \<and> distinct (map Name sis') \<longrightarrow>
        snd (Hash LeafHash H lib ((fst (Hash LeafHash H lib ci))\<lparr>StoreInfos := sis'\<rparr>))
          = Return (case leafHashes LeafHash (sort_Slice sis') of
                      Inl err \<Rightarrow> []
                    | Inr leaves \<Rightarrow> merkleRoot H leaves))"
proof (intro conjI impI)
  assume ne: "StoreInfos ci \<noteq> []"
  show "CommitHash (fst (Hash LeafHash H lib ci)) = CommitHash ci"
  proof (cases "CommitHash ci = []")
    case True
    from Hash_fresh [OF ne True, of LeafHash H lib] show ?thesis by simp
  next
    case False
    with ne show ?thesis by (simp add: Hash_def)
  qed
next
  assume "StoreInfos ci \<noteq> []" "CommitHash ci \<noteq> []"
  then show "Hash LeafHash H lib ci = (ci, Return (CommitHash ci))" by (simp add: Hash_def)
next
  assume ne: "StoreInfos ci \<noteq> []"
    and "CommitHash ci = [] \<and> distinct (map Name (StoreInfos ci))"
  then have e: "CommitHash ci = []" by simp
  from Hash_fresh [OF ne e, of LeafHash H lib]
  show "Hash LeafHash H lib ci =
          (ci\<lparr>StoreInfos := sort_Slice (StoreInfos ci)\<rparr>,
           Return (case leafHashes LeafHash (sort_Slice (StoreInfos ci)) of
                     Inl err \<Rightarrow> []
                   | Inr leaves \<Rightarrow> merkleRoot H leaves))"
    by (simp add: rootOrNil_def)
next
  assume ne: "StoreInfos ci \<noteq> []"
    and "CommitHash ci = [] \<and> sis' \<noteq> [] \<and> distinct (map Name sis')"
  then have e: "CommitHash ci = []" and ne': "sis' \<noteq> []" by simp_all
  let ?c = "(fst (Hash LeafHash H lib ci))\<lparr>StoreInfos := sis'\<rparr>"
  have "StoreInfos ?c \<noteq> []" "CommitHash ?c = []"
    using ne' e Hash_fresh [OF ne e, of LeafHash H lib] by simp_all
  from Hash_fresh [OF this, of LeafHash H lib]
  show "snd (Hash LeafHash H lib ?c)
          = Return (case leafHashes LeafHash (sort_Slice sis') of
                      Inl err \<Rightarrow> []
                    | Inr leaves \<Rightarrow> merkleRoot H leaves)"
    by (simp add: rootOrNil_def)
qed

theorem Hash_computes_without_caching_witness:
  "StoreInfos ci_example \<noteq> [] \<and> CommitHash ci_example = []
   \<and> distinct (map Name (StoreInfos ci_example))
   \<and> Hash (LeafHash_example H_example) H_example (lib_example H_example) ci_example
       = (ci_swapped_example, Return [82])
   \<and> CommitHash (fst (Hash (LeafHash_example H_example) H_example (lib_example H_example)
                         ci_example)) = []
   \<and> StoreInfos (ci_example\<lparr>CommitHash := [9]\<rparr>) \<noteq> []
   \<and> CommitHash (ci_example\<lparr>CommitHash := [9]\<rparr>) \<noteq> []
   \<and> Hash (LeafHash_example H_example) H_example (lib_example H_example)
        (ci_example\<lparr>CommitHash := [9]\<rparr>)
       = (ci_example\<lparr>CommitHash := [9]\<rparr>, Return [9])"
proof -
  let ?Hash = "Hash (LeafHash_example H_example) H_example (lib_example H_example)"
  have c: "CommitHash ci_example = []" by (simp add: ci_example_def)
  have s: "ci_example\<lparr>StoreInfos := sort_Slice (StoreInfos ci_example)\<rparr> = ci_swapped_example"
    by code_simp
  have lv: "leafHashes (LeafHash_example H_example) (sort_Slice (StoreInfos ci_example))
              = Inr [[180], [157]]"
    by code_simp
  have r: "merkleRoot H_example [[180], [157]] = [82]"
    by code_simp
  have ne9: "StoreInfos (ci_example\<lparr>CommitHash := [9]\<rparr>) \<noteq> []"
    using ci_example_nonempty by simp
  have c9: "CommitHash (ci_example\<lparr>CommitHash := [9]\<rparr>) \<noteq> []" by simp
  note th = Hash_computes_without_caching [OF ci_example_nonempty,
      of "LeafHash_example H_example" H_example "lib_example H_example"]
  from th c have b: "CommitHash (fst (?Hash ci_example)) = []" by simp
  from th c ci_example_distinct
  have "?Hash ci_example =
          (ci_example\<lparr>StoreInfos := sort_Slice (StoreInfos ci_example)\<rparr>,
           Return (case leafHashes (LeafHash_example H_example)
                          (sort_Slice (StoreInfos ci_example)) of
                     Inl err \<Rightarrow> []
                   | Inr leaves \<Rightarrow> merkleRoot H_example leaves))"
    by blast
  with s lv r have a: "?Hash ci_example = (ci_swapped_example, Return [82])" by simp
  from Hash_computes_without_caching [OF ne9, of "LeafHash_example H_example" H_example
      "lib_example H_example"] c9
  have d: "?Hash (ci_example\<lparr>CommitHash := [9]\<rparr>) = (ci_example\<lparr>CommitHash := [9]\<rparr>, Return [9])"
    by simp
  show ?thesis using ci_example_nonempty c ci_example_distinct a b ne9 c9 d by blast
qed

text \<open>
  The claim as stated fails: after the first call on the two stores bank and auth the
  commit\_hash field is still empty, and once store\_infos is replaced by the single
  store ibc the next call returns the root of the new list, not the first root.
\<close>

theorem Hash_not_cached_counterexample:
  "snd (Hash (LeafHash_example H_example) H_example (lib_example H_example) ci_example)
     = Return [82]
   \<and> CommitHash (fst (Hash (LeafHash_example H_example) H_example (lib_example H_example)
                         ci_example)) = []
   \<and> snd (Hash (LeafHash_example H_example) H_example (lib_example H_example)
        ((fst (Hash (LeafHash_example H_example) H_example (lib_example H_example)
                 ci_example))
           \<lparr>StoreInfos := [store_example ''ibc'' [3]]\<rparr>)) = Return [49]"
  by code_simp

subsection \<open>The proof operator\<close>

text \<open>
  C4, as the code has it. For every CommitmentOp and every argument list of length 2
  or more, Run fails with an error that wraps ErrInvalidProof. Whether it is the
  argument-count error depends on the proof: the root is calculated first, so a proof
  whose root cannot be calculated gives the could-not-calculate-root error, and only a
  proof with a root gives "args must be length 0 or 1" with the count.
\<close>

theorem Run_two_or_more_args:
  "2 \<le> length args \<Longrightarrow>
   Run lib cop args =
     (case Calculate lib (Proof cop) of
        Inl err \<Rightarrow> Inl (ErrInvalidProof (could_not_calculate_root err))
      | Inr root \<Rightarrow> Inl (ErrInvalidProof (args_must_be_length_0_or_1 (length args))))"
  by (cases args; cases "tl args") (auto simp: Run_def split: sum.splits)

theorem Run_two_or_more_args_witness:
  "2 \<le> length [[1], [2::byte]]
   \<and> Run (lib_example H_example) op_example [[1], [2]]
       = Inl (ErrInvalidProof (args_must_be_length_0_or_1 2))
   \<and> is_malformed_arguments (ErrInvalidProof (args_must_be_length_0_or_1 2))"
proof -
  have two: "2 \<le> length [[1], [2::byte]]" by simp
  have calc: "Calculate (lib_example H_example) (Proof op_example) = Inr [100]"
    by code_simp
  from Run_two_or_more_args [OF two, of "lib_example H_example" op_example] calc
  show ?thesis by simp
qed

text \<open>
  The claim as stated fails: with two arguments and a proof whose one-of is unset, Run
  returns the could-not-calculate-root error, which is not the argument-count error.
\<close>

theorem Run_two_args_unset_proof_counterexample:
  "Run (lib_example H_example) op_unset_example [[1], [2]]
     = Inl (ErrInvalidProof (could_not_calculate_root ''unrecognized proof type''))
   \<and> \<not> is_malformed_arguments
        (ErrInvalidProof (could_not_calculate_root ''unrecognized proof type''))"
  by (simp add: Run_def lib_example_def op_unset_example_def
      NewSimpleMerkleCommitmentOp_def)

text \<open>
  C5. For every CommitmentOp, Run derives the root from the embedded proof alone. With
  exactly one argument it verifies membership of the operator's key with that argument
  as value, against the derived root and the operator's spec; it returns the
  one-element list holding the derived root when the verification succeeds, and an
  error (no root) when the root cannot be derived or the verification fails.
\<close>

theorem Run_one_arg:
  "Run lib cop [arg0] =
     (case Calculate lib (Proof cop) of
        Inl err \<Rightarrow> Inl (ErrInvalidProof (could_not_calculate_root err))
      | Inr root \<Rightarrow>
          if VerifyMembership lib (Spec cop) root (Proof cop) (Key cop) arg0
          then Inr [root]
          else Inl (ErrInvalidProof (proof_did_not_verify_existence (Key cop) arg0)))"
  by (simp add: Run_def split: sum.splits)

theorem Run_one_arg_witness:
  "Run (lib_example H_example) op_example [[2]] = Inr [[100]]
   \<and> Run (lib_example H_example) op_example [[3]]
       = Inl (ErrInvalidProof (proof_did_not_verify_existence [98] [3]))"
proof -
  have calc: "Calculate (lib_example H_example) (Proof op_example) = Inr [100]"
    by code_simp
  have yes: "VerifyMembership (lib_example H_example) (Spec op_example) [100]
               (Proof op_example) (Key op_example) [2]"
    by code_simp
  have no: "\<not> VerifyMembership (lib_example H_example) (Spec op_example) [100]
               (Proof op_example) (Key op_example) [3]"
    by code_simp
  have key: "Key op_example = [98]"
    by (simp add: op_example_def NewSimpleMerkleCommitmentOp_def)
  from Run_one_arg [of "lib_example H_example" op_example "[2]"] calc yes
  have a: "Run (lib_example H_example) op_example [[2]] = Inr [[100]]" by simp
  from Run_one_arg [of "lib_example H_example" op_example "[3]"] calc no key
  have b: "Run (lib_example H_example) op_example [[3]]
       = Inl (ErrInvalidProof (proof_did_not_verify_existence [98] [3]))" by simp
  from a b show ?thesis by simp
qed

text \<open>
  C3, as the code has it. The envelope made by CommitmentOp.ProofOp carries the
  operator's own type string; the three constructors set it to "ics23:iavl",
  "ics23:simple" and "ics23:smt"; and every envelope that ProofOpFromMap returns
  carries "ics23:simple".
\<close>

theorem ProofOp_type_strings:
  "(ProofOp lib cop = Return env \<longrightarrow> ProofOp_Type env = Type cop)
   \<and> Type (NewIAVLCommitmentOp lib key proof) = ''ics23:iavl''
   \<and> Type (NewSimpleMerkleCommitmentOp lib key proof) = ''ics23:simple''
   \<and> Type (NewSMTCommitmentOp lib key proof) = ''ics23:smt''
   \<and> (ProofOpFromMap H lib conv cmap storeName = Return (Inr ret)
        \<longrightarrow> ProofOp_Type ret = ''ics23:simple'')"
proof (intro conjI impI)
  assume "ProofOp lib cop = Return env"
  then show "ProofOp_Type env = Type cop"
    by (auto simp: ProofOp_def split: sum.splits)
next
  show "Type (NewIAVLCommitmentOp lib key proof) = ''ics23:iavl''"
    by (simp add: NewIAVLCommitmentOp_def ProofOpIAVLCommitment_def)
  show "Type (NewSimpleMerkleCommitmentOp lib key proof) = ''ics23:simple''"
    by (simp add: NewSimpleMerkleCommitmentOp_def ProofOpSimpleMerkleCommitment_def)
  show "Type (NewSMTCommitmentOp lib key proof) = ''ics23:smt''"
    by (simp add: NewSMTCommitmentOp_def ProofOpSMTCommitment_def)
next
  assume "ProofOpFromMap H lib conv cmap storeName = Return (Inr ret)"
  then show "ProofOp_Type ret = ''ics23:simple''"
    by (auto simp: ProofOpFromMap_def ProofOp_def NewSimpleMerkleCommitmentOp_def
        ProofOpSimpleMerkleCommitment_def
        split: prod.splits option.splits sum.splits outcome.splits)
qed

theorem ProofOp_type_strings_witness:
  "ProofOp (lib_example H_example) op_example
     = Return \<lparr>ProofOp_Type = ''ics23:simple'', ProofOp_Key = [98], ProofOp_Data = [98, 2]\<rparr>
   \<and> Type op_example = ''ics23:simple''
   \<and> ProofOpFromMap H_example (lib_example H_example) conv_example
        [(''a'', [1]), (''b'', [2])] ''b''
     = Return (Inr \<lparr>ProofOp_Type = ''ics23:simple'', ProofOp_Key = [98],
                     ProofOp_Data = [98, 2]\<rparr>)"
proof -
  let ?env = "\<lparr>ProofOp_Type = ''ics23:simple'', ProofOp_Key = [98], ProofOp_Data = [98, 2]\<rparr>"
  have a: "ProofOp (lib_example H_example) op_example = Return ?env" by code_simp
  have b: "ProofOpFromMap H_example (lib_example H_example) conv_example
        [(''a'', [1]), (''b'', [2])] ''b'' = Return (Inr ?env)" by code_simp
  from ProofOp_type_strings [of "lib_example H_example" op_example ?env] a
  have "Type op_example = ''ics23:simple''" by simp
  with a b show ?thesis by simp
qed

text \<open>
  The claim as stated fails: the envelope of an operator made by
  NewSimpleMerkleCommitmentOp carries "ics23:simple", which is none of
  "commitment:iavl", "commitment:simple", "commitment:smt".
\<close>

theorem ProofOp_type_not_commitment_counterexample:
  "ProofOp (lib_example H_example) op_example
     = Return \<lparr>ProofOp_Type = ''ics23:simple'', ProofOp_Key = [98], ProofOp_Data = [98, 2]\<rparr>
   \<and> ''ics23:simple'' \<notin> {''commitment:iavl'', ''commitment:simple'', ''commitment:smt''}"
proof -
  have "ProofOp (lib_example H_example) op_example
     = Return \<lparr>ProofOp_Type = ''ics23:simple'', ProofOp_Key = [98], ProofOp_Data = [98, 2]\<rparr>"
    by code_simp
  then show ?thesis by simp
qed

text \<open>
  C7. For every map from store names to hashes and every requested name that is not a
  key of the map, ProofOpFromMap fails with the unknown-store-name error; so it does
  for the map with keys "a" and "b" and the requested name "c".
\<close>

lemma ProofsFromMap_no_proof:
  assumes "storeName \<notin> fst ` set cmap"
  shows "fst (snd (ProofsFromMap H cmap)) storeName = None"
proof -
  let ?keys = "sort (remdups (map fst cmap))"
  have "storeName \<notin> set ?keys" using assms by simp
  then show ?thesis
    by (simp add: ProofsFromMap_def Let_def map_of_zip_is_None)
qed

theorem ProofOpFromMap_unknown_store_name:
  "storeName \<notin> fst ` set cmap \<Longrightarrow>
   ProofOpFromMap H lib conv cmap storeName
     = Return (Inl (Errorf (not_registered_store_name storeName)))"
  using ProofsFromMap_no_proof [of storeName cmap H]
  by (cases "ProofsFromMap H cmap") (simp add: ProofOpFromMap_def)

theorem ProofOpFromMap_unknown_store_name_witness:
  "''c'' \<notin> fst ` set [(''a'', [1::byte]), (''b'', [2])]
   \<and> ProofOpFromMap H_example (lib_example H_example) conv_example
        [(''a'', [1]), (''b'', [2])] ''c''
     = Return (Inl (Errorf (not_registered_store_name ''c'')))"
proof -
  have notin: "''c'' \<notin> fst ` set [(''a'', [1::byte]), (''b'', [2])]" by simp
  from ProofOpFromMap_unknown_store_name [OF notin, of H_example "lib_example H_example"
      conv_example] notin
  show ?thesis by simp
qed

subsection \<open>The codec\<close>

lemma put_ne: "PutUvarint x \<noteq> []"
  by (subst PutUvarint.simps) simp

lemma unat_byte [simp]: "x < 256 \<Longrightarrow> unat (of_nat x :: byte) = x"
  by (simp add: unat_of_nat)

lemma Uvarint_PutUvarint:
  "Uvarint (PutUvarint x @ rest) = Some (x, length (PutUvarint x))"
proof (induction x rule: PutUvarint.induct)
  case (1 x)
  show ?case
  proof (cases "x < 128")
    case True
    then have lt: "(of_nat x :: byte) < 128"
      by (simp add: word_less_nat_alt)
    from True lt show ?thesis by (subst (1 2) PutUvarint.simps) simp
  next
    case False
    have m: "x mod 128 + 128 < 256" by simp
    have nlt: "\<not> (of_nat (x mod 128 + 128) :: byte) < 128"
      using m by (simp add: word_less_nat_alt del: of_nat_add)
    have u: "unat (of_nat (x mod 128 + 128) :: byte) = x mod 128 + 128"
      using m by (simp del: of_nat_add)
    from False 1 nlt u show ?thesis
      by (subst (1 2) PutUvarint.simps) (simp del: of_nat_add)
  qed
qed

lemma length_PutUvarint: "x < 128 ^ k \<Longrightarrow> 0 < k \<Longrightarrow> length (PutUvarint x) \<le> k"
proof (induction x arbitrary: k rule: PutUvarint.induct)
  case (1 x)
  show ?case
  proof (cases "x < 128")
    case True
    with 1 show ?thesis by (subst PutUvarint.simps) simp
  next
    case False
    from 1(2,3) False obtain j where k: "k = Suc j" by (cases k) auto
    with False 1(2) have "0 < j" by (cases j) auto
    moreover from k 1(2) have "x div 128 < 128 ^ j"
      by (simp add: less_mult_imp_div_less mult.commute)
    ultimately have "length (PutUvarint (x div 128)) \<le> j" using 1(1) False by simp
    with False k show ?thesis by (subst PutUvarint.simps) simp
  qed
qed

lemma length_PutUvarint_64: "x < 2 ^ 64 \<Longrightarrow> length (PutUvarint x) \<le> 10"
  by (rule length_PutUvarint) simp_all

lemma DecodeUvarint_PutUvarint:
  "DecodeUvarint (PutUvarint (unat u) @ rest) = Inr (u, length (PutUvarint (unat u)))"
proof -
  have "unat u < 2 ^ 64" using unsigned_less [of u] by simp
  then show ?thesis
    using length_PutUvarint_64 [of "unat u"]
    by (simp add: DecodeUvarint_def Uvarint_PutUvarint)
qed

lemma zigzag_bound: "- (2 ^ 63) \<le> i \<Longrightarrow> i < 2 ^ 63 \<Longrightarrow> zigzag i < 2 ^ 64"
  by (auto simp: zigzag_def)

lemma unzigzag_zigzag: "unzigzag (zigzag i) = i"
  by (auto simp: zigzag_def unzigzag_def nat_mult_distrib even_nat_iff)

lemma DecodeVarint_PutUvarint:
  assumes "- (2 ^ 63) \<le> i" "i < 2 ^ 63"
  shows "DecodeVarint (PutUvarint (zigzag i) @ rest) = Inr (i, length (PutUvarint (zigzag i)))"
  using zigzag_bound [OF assms] length_PutUvarint_64 [of "zigzag i"]
  by (simp add: DecodeVarint_def Uvarint_PutUvarint unzigzag_zigzag)

lemma unat_len64: "n < 2 ^ 63 \<Longrightarrow> unat (of_nat n :: 64 word) = n"
  by (simp add: unat_of_nat)

lemma DecodeBytes_encoded:
  assumes "length bz < 2 ^ 63"
  shows "DecodeBytes (PutUvarint (length bz) @ bz @ rest)
           = Inr (bz, length (PutUvarint (length bz)) + length bz)"
proof -
  let ?u = "of_nat (length bz) :: 64 word"
  have u: "unat ?u = length bz" using assms by (rule unat_len64)
  have "DecodeUvarint (PutUvarint (unat ?u) @ (bz @ rest))
          = Inr (?u, length (PutUvarint (unat ?u)))"
    by (rule DecodeUvarint_PutUvarint)
  then show ?thesis using assms by (simp add: DecodeBytes_def u)
qed

lemma EncodeBytes_eq:
  "length bz < 2 ^ 63 \<Longrightarrow> EncodeBytes buf bz = Inr (buf @ PutUvarint (length bz) @ bz)"
  by (simp add: EncodeBytes_def EncodeUvarint_def unat_len64)

lemma string_of_bytes_of_string [simp]: "string_of_bytes (bytes_of_string s) = s"
proof -
  have "char_of_byte (byte_of_char c) = c" for c
  proof -
    have "(of_char c :: nat) < 256" by (metis of_char_mod_256 mod_less_divisor zero_less_numeral)
    then show ?thesis by (simp add: char_of_byte_def byte_of_char_def)
  qed
  then show ?thesis by (simp add: string_of_bytes_def bytes_of_string_def comp_def)
qed

lemma length_bytes_of_string [simp]: "length (bytes_of_string s) = length s"
  by (simp add: bytes_of_string_def)

lemma int64_wrap_id: "- (2 ^ 63) \<le> x \<Longrightarrow> x < 2 ^ 63 \<Longrightarrow> int64_wrap x = x"
  by (simp add: int64_wrap_def)

lemma sdiv_smod_nonneg:
  "0 \<le> (t::int) \<Longrightarrow> 0 < b \<Longrightarrow> t sdiv b = t div b \<and> t smod b = t mod b"
  by (cases "t = 0") (simp_all add: signed_divide_int_def signed_modulo_int_def)

lemma sdiv_smod_neg:
  "(t::int) < 0 \<Longrightarrow> 0 < b \<Longrightarrow> t sdiv b = - ((- t) div b) \<and> t smod b = - ((- t) mod b)"
  by (simp add: signed_divide_int_def signed_modulo_int_def)

lemma time_Unix_of_nanos:
  assumes "0 \<le> ns" "ns < 1000000000"
  shows "time_Unix ((s * 1000000000 + ns) sdiv Second) ((s * 1000000000 + ns) smod Second)
           = \<lparr>unix_sec = s, nsec = ns\<rparr>"
proof -
  let ?B = "1000000000 :: int"
  let ?t = "s * ?B + ns"
  show ?thesis
  proof (cases "0 \<le> ?t")
    case True
    have "?t div ?B = s" "?t mod ?B = ns" using assms by simp_all
    with sdiv_smod_nonneg [OF True, of ?B]
    have "?t sdiv Second = s" "?t smod Second = ns" by (simp_all add: Second_def)
    then show ?thesis using assms by (simp add: time_Unix_def)
  next
    case False
    then have neg: "?t < 0" by simp
    show ?thesis
    proof (cases "ns = 0")
      case True
      have "- ?t = (- s) * ?B" using True by simp
      then have "(- ?t) div ?B = - s" "(- ?t) mod ?B = 0" by simp_all
      with sdiv_smod_neg [OF neg, of ?B]
      have "?t sdiv Second = s" "?t smod Second = 0" by (simp_all add: Second_def)
      then show ?thesis using True by (simp add: time_Unix_def)
    next
      case nz: False
      have eq: "- ?t = ?B * (- s - 1) + (?B - ns)" by (simp add: algebra_simps)
      have r0: "0 \<le> ?B - ns" "?B - ns < ?B" using assms nz by simp_all
      have d: "(- ?t) div ?B = - s - 1"
        by (rule int_div_pos_eq [OF eq r0])
      have m: "(- ?t) mod ?B = ?B - ns"
        by (rule int_mod_pos_eq [OF eq r0])
      from sdiv_smod_neg [OF neg, of ?B] d m
      have q: "?t sdiv Second = s + 1" and r: "?t smod Second = ns - ?B"
        by (simp_all add: Second_def)
      have z: "(ns - ?B) sdiv ?B = 0"
      proof -
        have lt: "ns - ?B < 0" using assms by simp
        have "- (ns - ?B) = ?B * 0 + (?B - ns)" by simp
        from int_div_pos_eq [OF this r0] sdiv_smod_neg [OF lt, of ?B]
        show ?thesis by simp
      qed
      show ?thesis
        unfolding q r using z assms nz by (simp add: time_Unix_def Let_def)
    qed
  qed
qed

lemma drop_encoded: "drop (length a + length b) (a @ b @ c) = c"
  by simp

lemma StoreInfo_updates:
  "(r::StoreInfo)\<lparr>Name := a, CommitID := b\<rparr> = \<lparr>Name = a, CommitID = b\<rparr>"
  by (cases r) simp

lemma loops_round_trip:
  assumes "list_all (\<lambda>si. length (Name si) < 2 ^ 63 \<and> length (GetHash si) < 2 ^ 63) xs"
  shows "\<exists>out. marshalLoop buf xs = Inr (buf @ out)
     \<and> (\<forall>i n v sis rest. length sis = n \<and> i + length xs = n \<longrightarrow>
           unmarshalLoop i n v (out @ rest) sis
             = (take i sis @ map (decoded_StoreInfo v) xs, None))"
  using assms
proof (induction xs arbitrary: buf)
  case Nil
  have "unmarshalLoop i n v rest sis = (take i sis, None)"
    if "length sis = n" "i = n" for i n v rest sis
    using that by (subst unmarshalLoop.simps) simp
  then show ?case by simp
next
  case (Cons x xs)
  let ?nm = "bytes_of_string (Name x)"
  let ?h = "GetHash x"
  let ?e1 = "PutUvarint (length ?nm) @ ?nm"
  let ?e2 = "PutUvarint (length ?h) @ ?h"
  from Cons.prems have ln: "length ?nm < 2 ^ 63" and lh: "length ?h < 2 ^ 63"
    and rest: "list_all (\<lambda>si. length (Name si) < 2 ^ 63 \<and> length (GetHash si) < 2 ^ 63) xs"
    by simp_all
  from Cons.IH [OF rest, of "buf @ ?e1 @ ?e2"] obtain out where
    m: "marshalLoop (buf @ ?e1 @ ?e2) xs = Inr ((buf @ ?e1 @ ?e2) @ out)"
    and u: "\<And>i n v sis rest. length sis = n \<Longrightarrow> i + length xs = n \<Longrightarrow>
           unmarshalLoop i n v (out @ rest) sis
             = (take i sis @ map (decoded_StoreInfo v) xs, None)"
    by blast
  have enc: "marshalLoop buf (x # xs) = Inr (buf @ (?e1 @ ?e2 @ out))"
    using m ln lh by (simp add: EncodeBytes_eq GetHash_def)
  have dec: "unmarshalLoop i n v ((?e1 @ ?e2 @ out) @ rest) sis
             = (take i sis @ map (decoded_StoreInfo v) (x # xs), None)"
    if len: "length sis = n" and i: "i + length (x # xs) = n" for i n v sis rest
  proof -
    have lt: "i < n" using i by simp
    have d1: "DecodeBytes ((?e1 @ ?e2 @ out) @ rest)
                = Inr (?nm, length (PutUvarint (length ?nm)) + length ?nm)"
      using DecodeBytes_encoded [OF ln, of "?e2 @ out @ rest"] by simp
    have dr1: "drop (length (PutUvarint (length ?nm)) + length ?nm) ((?e1 @ ?e2 @ out) @ rest)
                = ?e2 @ out @ rest"
      by simp
    have d2: "DecodeBytes (?e2 @ out @ rest)
                = Inr (?h, length (PutUvarint (length ?h)) + length ?h)"
      using DecodeBytes_encoded [OF lh, of "out @ rest"] by simp
    have dr2: "drop (length (PutUvarint (length ?h)) + length ?h) (?e2 @ out @ rest)
                = out @ rest"
      by simp
    let ?s1 = "sis[i := (sis ! i)\<lparr>Name := string_of_bytes ?nm\<rparr>]"
    let ?s2 = "?s1[i := (?s1 ! i)\<lparr>CommitID := \<lparr>CommitID_Version = v, CommitID_Hash = ?h\<rparr>\<rparr>]"
    have s2: "?s2 = sis[i := decoded_StoreInfo v x]"
      using lt len by (simp add: decoded_StoreInfo_def StoreInfo_updates)
    have step: "unmarshalLoop i n v ((?e1 @ ?e2 @ out) @ rest) sis
                  = unmarshalLoop (i + 1) n v (out @ rest) ?s2"
      by (subst unmarshalLoop.simps) (simp only: lt if_True d1 sum.case prod.case Let_def dr1 d2 dr2)
    have "unmarshalLoop (i + 1) n v (out @ rest) ?s2
            = (take (i + 1) ?s2 @ map (decoded_StoreInfo v) xs, None)"
      by (rule u) (use len i in simp_all)
    moreover have "take (i + 1) ?s2 = take i sis @ [decoded_StoreInfo v x]"
      unfolding s2 using lt len by (simp add: take_Suc_conv_app_nth)
    ultimately show ?thesis using step by simp
  qed
  from enc dec show ?case by blast
qed

lemma PutUvarint_small: "x < 128 \<Longrightarrow> PutUvarint x = [of_nat x]"
  by (subst PutUvarint.simps) simp

lemma PutUvarint_large:
  "\<not> x < 128 \<Longrightarrow> PutUvarint x = of_nat (x mod 128 + 128) # PutUvarint (x div 128)"
  by (subst PutUvarint.simps) simp

lemmas PutUvarint_eval = PutUvarint_small PutUvarint_large

lemma PutUvarint_zero_Time: "PutUvarint 13590729157742690303 = [255, 255, 175, 174, 152, 133, 254, 205, 188, 1]"
  by (simp add: PutUvarint_eval)

lemma UnixNano_zero_Time: "UnixNano zero_Time = - 6795364578871345152"
  by (simp add: UnixNano_def zero_Time_def int64_wrap_def)

lemma zigzag_zero_Time: "zigzag (- 6795364578871345152) = 13590729157742690303"
  by (simp add: zigzag_def)

lemma Marshal_zero_time_example: "Marshal ci_zero_time_example = Inr [7, 255, 255, 175, 174, 152, 133, 254, 205, 188, 1, 1, 1, 120, 1, 9]"
  by (simp add: Marshal_def ci_zero_time_example_def EncodeUvarint_def EncodeVarint_def UnixNano_zero_Time zigzag_zero_Time PutUvarint_zero_Time
     EncodeBytes_def store_example_def PutUvarint_eval bytes_of_string_def byte_of_char_def)


lemma string_of_bytes_x: "string_of_bytes [120] = ''x''"
proof -
  have "bytes_of_string ''x'' = [120]" by (simp add: bytes_of_string_def byte_of_char_def)
  then show ?thesis by (metis string_of_bytes_of_string)
qed

lemma Unmarshal_zero_time_example: "Unmarshal ci_zero_time_example [7, 255, 255, 175, 174, 152, 133, 254, 205, 188, 1, 1, 1, 120, 1, 9]
  = Return (ci_zero_time_example\<lparr>Timestamp := \<lparr>unix_sec = - 6795364579, nsec = 128654848\<rparr>\<rparr>, None)"
  by (simp add: Unmarshal_def DecodeUvarint_def DecodeVarint_def DecodeBytes_def unzigzag_def
      Second_def time_Unix_def signed_divide_int_def signed_modulo_int_def Let_def
      unmarshalLoop.simps zero_StoreInfo_def ci_zero_time_example_def store_example_def
      string_of_bytes_x zero_Time_def)

text \<open>
  C2, as the code has it. For every CommitInfo whose timestamp is an instant that
  UnixNano can express (its nanoseconds since the epoch fit an int64, years 1678 to
  2262) and whose lengths are Go ints, encoding succeeds, and decoding the bytes into
  any receiver gives no error and sets the receiver's version and timestamp to the
  original's and its store\_infos to the original entries in order, each with the
  original name and hash and with the aggregate's version as its own. The receiver's
  commit\_hash is left as it was: it is not encoded.
\<close>

theorem Unmarshal_Marshal_round_trip:
  assumes "go_lengths ci" "nanos_fit_int64 (Timestamp ci)"
  shows "\<exists>bz. Marshal ci = Inr bz
     \<and> Unmarshal ci0 bz =
         Return (ci0\<lparr>Version := Version ci,
                      Timestamp := Timestamp ci,
                      StoreInfos := map (decoded_StoreInfo (Version ci)) (StoreInfos ci)\<rparr>,
                 None)"
proof -
  let ?n = "length (StoreInfos ci)"
  let ?t = "unix_sec (Timestamp ci) * 1000000000 + nsec (Timestamp ci)"
  define b1 where "b1 = PutUvarint (unat (Version ci))"
  define b2 where "b2 = PutUvarint (zigzag ?t)"
  define b3 where "b3 = PutUvarint (unat (of_nat ?n :: 64 word))"
  from assms(1) have n: "?n < 2 ^ 63"
    and la: "list_all (\<lambda>si. length (Name si) < 2 ^ 63 \<and> length (GetHash si) < 2 ^ 63)
               (StoreInfos ci)"
    by (simp_all add: go_lengths_def)
  from assms(2) have ns: "0 \<le> nsec (Timestamp ci)" "nsec (Timestamp ci) < 1000000000"
    and lo: "- (2 ^ 63) \<le> ?t" and hi: "?t < 2 ^ 63"
    by (simp_all add: nanos_fit_int64_def)
  have un: "UnixNano (Timestamp ci) = ?t"
    using lo hi by (simp add: UnixNano_def int64_wrap_id)
  have nu: "unat (of_nat ?n :: 64 word) = ?n" using n by (rule unat_len64)
  from loops_round_trip [OF la, of "b1 @ b2 @ b3"] obtain out where
    m: "marshalLoop (b1 @ b2 @ b3) (StoreInfos ci) = Inr ((b1 @ b2 @ b3) @ out)"
    and u: "\<And>i n v sis rest. length sis = n \<Longrightarrow> i + ?n = n \<Longrightarrow>
           unmarshalLoop i n v (out @ rest) sis
             = (take i sis @ map (decoded_StoreInfo v) (StoreInfos ci), None)"
    by blast
  have enc: "Marshal ci = Inr (b1 @ b2 @ b3 @ out)"
    using m by (simp add: Marshal_def EncodeUvarint_def EncodeVarint_def un b1_def b2_def b3_def)
  have d1: "DecodeUvarint (b1 @ b2 @ b3 @ out) = Inr (Version ci, length b1)"
    unfolding b1_def by (rule DecodeUvarint_PutUvarint)
  have d2: "DecodeVarint (b2 @ b3 @ out) = Inr (?t, length b2)"
    unfolding b2_def by (rule DecodeVarint_PutUvarint [OF lo hi])
  have d3: "DecodeUvarint (b3 @ out) = Inr (of_nat ?n, length b3)"
    unfolding b3_def by (rule DecodeUvarint_PutUvarint)
  have tm: "time_Unix (?t sdiv Second) (?t smod Second) = Timestamp ci"
    using time_Unix_of_nanos [OF ns, of "unix_sec (Timestamp ci)"] by simp
  have lp: "unmarshalLoop 0 ?n (Version ci) out (replicate ?n zero_StoreInfo)
             = (map (decoded_StoreInfo (Version ci)) (StoreInfos ci), None)"
  proof -
    have "unmarshalLoop 0 ?n (Version ci) (out @ []) (replicate ?n zero_StoreInfo)
            = (take 0 (replicate ?n zero_StoreInfo)
                 @ map (decoded_StoreInfo (Version ci)) (StoreInfos ci), None)"
      by (rule u) simp_all
    then show ?thesis by simp
  qed
  have nb: "\<not> (2 ^ 63 \<le> ?n)" using n by simp
  have "Unmarshal ci0 (b1 @ b2 @ b3 @ out) =
         Return (ci0\<lparr>Version := Version ci,
                      Timestamp := Timestamp ci,
                      StoreInfos := map (decoded_StoreInfo (Version ci)) (StoreInfos ci)\<rparr>,
                 None)"
    unfolding Unmarshal_def
    using n by (simp add: d1 d2 d3 tm lp nu Let_def)
  with enc show ?thesis by blast
qed

theorem Unmarshal_Marshal_round_trip_witness:
  "go_lengths ci_example \<and> nanos_fit_int64 (Timestamp ci_example)
   \<and> (\<exists>bz. Marshal ci_example = Inr bz
          \<and> Unmarshal ci_zero_time_example bz = Return (ci_example, None))"
proof -
  have g: "go_lengths ci_example"
    by (simp add: go_lengths_def ci_example_def store_example_def GetHash_def)
  have t: "nanos_fit_int64 (Timestamp ci_example)"
    by (simp add: nanos_fit_int64_def ci_example_def)
  have r: "ci_zero_time_example
             \<lparr>Version := Version ci_example, Timestamp := Timestamp ci_example,
              StoreInfos := map (decoded_StoreInfo (Version ci_example))
                              (StoreInfos ci_example)\<rparr> = ci_example"
    by (simp add: ci_example_def ci_zero_time_example_def store_example_def
        decoded_StoreInfo_def GetHash_def)
  from Unmarshal_Marshal_round_trip [OF g t, of ci_zero_time_example] r
  have "\<exists>bz. Marshal ci_example = Inr bz
          \<and> Unmarshal ci_zero_time_example bz = Return (ci_example, None)"
    by simp
  with g t show ?thesis by blast
qed

text \<open>
  The claim as stated fails for a timestamp outside that range: a CommitInfo whose
  timestamp is the zero time.Time (year 1) encodes the wrapped-around nanoseconds, and
  decoding gives an instant in the year 1754 instead.
\<close>

theorem Unmarshal_Marshal_zero_time_counterexample:
  "Marshal ci_zero_time_example
     = Inr [7, 255, 255, 175, 174, 152, 133, 254, 205, 188, 1, 1, 1, 120, 1, 9]
   \<and> Unmarshal ci_zero_time_example
        [7, 255, 255, 175, 174, 152, 133, 254, 205, 188, 1, 1, 1, 120, 1, 9]
     = Return (ci_zero_time_example
                 \<lparr>Timestamp := \<lparr>unix_sec = - 6795364579, nsec = 128654848\<rparr>\<rparr>, None)
   \<and> Timestamp ci_zero_time_example = \<lparr>unix_sec = - 62135596800, nsec = 0\<rparr>
   \<and> \<lparr>unix_sec = - 6795364579, nsec = 128654848\<rparr> \<noteq> Timestamp ci_zero_time_example"
  using Marshal_zero_time_example Unmarshal_zero_time_example
  by (simp add: ci_zero_time_example_def zero_Time_def)

end
